theory Spec2Isabelle
  imports Complex_Main "HOL-Library.Multiset" "HOL-Library.AList"
begin

section \<open>Data model\<close>

text \<open>
  Go strings are used in two ways by the package. Identifiers, names and type tags are
  handled bytewise (\<^verbatim>\<open>strings.LastIndex\<close>, \<^verbatim>\<open>fmt.Sprintf\<close>) and are modelled as
  \<^typ>\<open>string\<close>, one \<^typ>\<open>char\<close> per byte. Document content, segment text and queries are
  handled as sequences of code points (\<^verbatim>\<open>[]rune(text)\<close>) and are modelled as lists of
  runes, so that \<^const>\<open>length\<close> counts code points.

  \<^verbatim>\<open>float64\<close> is modelled by \<^typ>\<open>real\<close>: rounding, infinities and NaN are outside the model.
  Go's \<^verbatim>\<open>int\<close> is taken to be 64 bits wide; where the source does arithmetic on it the
  wrap-around is written out (\<open>wrap64\<close>).
\<close>

type_synonym rune = nat
type_synonym runes = "rune list"
type_synonym vec = "real list"

text \<open>
  Every \<^verbatim>\<open>errors.New\<close> / \<^verbatim>\<open>fmt.Errorf\<close> of the package is a constructor; \<open>GeneratorError\<close>
  carries the opaque error of the embedding function, \<open>AtoiError\<close> the error of
  \<^verbatim>\<open>strconv.Atoi\<close>. \<open>Panic\<close> is a Go run-time panic (nil dereference, index or slice
  bound out of range): it is not an error return, and aborts the caller as well.
\<close>

datatype 'e error =
    EmbeddingFunctionRequired
  | ChunkSizeNotPositive
  | ChunkOverlapNegative
  | ChunkOverlapTooLarge
  | CollectionNameRequired
  | EmbeddingDocumentTypeRequired
  | EmbeddingQueryTypeRequired
  | DocumentIDRequired
  | DocumentExists string
  | DocumentContentRequired
  | DocumentNotFound string
  | GeneratorError 'e
  | ZeroVector
  | NoVectorsToAverage
  | VectorsLengthMismatch
  | NoEmbeddingsProvided
  | QueryLengthMismatch
  | NoQueryEmbedding
  | InvalidIDFormat string
  | AtoiError
  | AllQueriesFailed
  | Panic

text \<open>
  Pointers. \<open>Nil\<close> is Go's \<^verbatim>\<open>nil\<close>; \<open>Ptr a\<close> is the address \<open>a\<close>. Documents are allocated by
  the caller and live in \<open>docHeap\<close>; segments are allocated by the package
  (\<^verbatim>\<open>&Segment{...}\<close>) and live in \<open>segHeap\<close>, a list whose indices are the addresses, so
  that allocation (appending) returns a fresh address. Slices are modelled as lists:
  two slices never share a backing array in the model.
\<close>

datatype ptr = Nil | Ptr nat

record Segment =
  Text :: runes
  Embedding :: vec

record 'm Document =
  ID :: string
  Metadata :: 'm
  Segments :: "ptr list"
  Content :: runes

record 'm memory =
  docHeap :: "nat \<rightharpoonup> 'm Document"
  segHeap :: "Segment list"

text \<open>
  \<^verbatim>\<open>Similarity{ID, Score}\<close> of vector.go; its field \<^verbatim>\<open>ID\<close> is named \<open>SimID\<close> here, because
  \<open>ID\<close> is the field of \<open>Document\<close>.
\<close>

record Similarity =
  SimID :: string
  Score :: real

record Result =
  Document :: ptr
  Segment :: ptr
  Similarity :: real

text \<open>
  \<^verbatim>\<open>Collection\<close>. The lock and the unused \<^verbatim>\<open>metadata\<close> map are left out. \<open>documents\<close> maps
  an ID to the address of its document. The embedding function is modelled as a pure
  function of its two arguments.
\<close>

record 'e Collection =
  Name :: string
  documents :: "string \<rightharpoonup> ptr"
  embeddingFunc :: "runes list \<Rightarrow> string \<Rightarrow> 'e + vec list"
  embeddingDocumentType :: string
  embeddingQueryType :: string
  ChunkSize :: int
  ChunkOverlap :: int

definition derefDoc :: "'m memory \<Rightarrow> ptr \<Rightarrow> 'e error + 'm Document" where
  "derefDoc mem p =
     (case p of
        Nil \<Rightarrow> Inl Panic
      | Ptr a \<Rightarrow> (case docHeap mem a of None \<Rightarrow> Inl Panic | Some d \<Rightarrow> Inr d))"

definition derefSeg :: "'m memory \<Rightarrow> ptr \<Rightarrow> 'e error + Segment" where
  "derefSeg mem p =
     (case p of
        Nil \<Rightarrow> Inl Panic
      | Ptr a \<Rightarrow> (if a < length (segHeap mem) then Inr (segHeap mem ! a) else Inl Panic))"

text \<open>\<^verbatim>\<open>&Segment{...}\<close>: the new segment gets the next free address.\<close>

definition newSegment :: "'m memory \<Rightarrow> Segment \<Rightarrow> ptr \<times> 'm memory" where
  "newSegment mem s = (Ptr (length (segHeap mem)), mem\<lparr>segHeap := segHeap mem @ [s]\<rparr>)"

text \<open>\<^verbatim>\<open>doc.Segments = append(doc.Segments, p)\<close> for a document that was dereferenced
  before (for a pointer that cannot be dereferenced the model leaves the memory as it is;
  the callers below never get there).\<close>

definition appendSegment :: "'m memory \<Rightarrow> ptr \<Rightarrow> ptr \<Rightarrow> 'm memory" where
  "appendSegment mem doc p =
     (case doc of
        Nil \<Rightarrow> mem
      | Ptr a \<Rightarrow>
          (case docHeap mem a of
             None \<Rightarrow> mem
           | Some d \<Rightarrow> mem\<lparr>docHeap := (docHeap mem)(a \<mapsto> d\<lparr>Segments := Segments d @ [p]\<rparr>)\<rparr>))"

section \<open>Machine integers\<close>

definition wrap64 :: "int \<Rightarrow> int" where
  "wrap64 x = (x + 2 ^ 63) mod 2 ^ 64 - 2 ^ 63"

definition MaxInt :: int where
  "MaxInt = 2 ^ 63 - 1"

section \<open>Segmenter: \<open>splitText\<close>\<close>

text \<open>
  \<^verbatim>\<open>runes[i:end]\<close>: Go panics unless \<open>0 \<le> i \<le> end \<le> cap\<close>. The only caller passes
  \<open>end \<le> len(runes)\<close>.
\<close>

definition slice :: "'a list \<Rightarrow> int \<Rightarrow> int \<Rightarrow> 'e error + 'a list" where
  "slice xs i j =
     (if 0 \<le> i \<and> i \<le> j \<and> j \<le> int (length xs)
      then Inr (take (nat (j - i)) (drop (nat i) xs))
      else Inl Panic)"

text \<open>
  The loop of \<^verbatim>\<open>splitText\<close> (collection.go, lines 401-407), with the loop variable \<open>i\<close>
  and the accumulated \<open>chunks\<close> as arguments. The stride \<^verbatim>\<open>c.ChunkSize - c.ChunkOverlap\<close>
  is recomputed at every step, as in the source. With a stride of \<open>0\<close> the loop never
  exits: the result is \<open>None\<close>.
\<close>

partial_function (option) splitText_loop ::
  "int \<Rightarrow> int \<Rightarrow> runes \<Rightarrow> int \<Rightarrow> runes list \<Rightarrow> ('e error + runes list) option" where
  "splitText_loop chunkSize chunkOverlap runes i chunks =
     (if i < int (length runes) then
        (let end0 = wrap64 (i + chunkSize);
             end1 = (if end0 > int (length runes) then int (length runes) else end0)
         in case slice runes i end1 of
              Inl e \<Rightarrow> Some (Inl e)
            | Inr chunk \<Rightarrow>
                splitText_loop chunkSize chunkOverlap runes
                  (wrap64 (i + wrap64 (chunkSize - chunkOverlap))) (chunks @ [chunk]))
      else Some (Inr chunks))"

definition splitText :: "'e Collection \<Rightarrow> runes \<Rightarrow> ('e error + runes list) option" where
  "splitText c txt = splitText_loop (ChunkSize c) (ChunkOverlap c) txt 0 []"

section \<open>VectorMath\<close>

text \<open>
  \<^verbatim>\<open>normalizeVector\<close> and \<^verbatim>\<open>dotProduct\<close> of vector.go, on the reals. Here the test
  \<^verbatim>\<open>sum == 0\<close> holds for the zero vector only; in \<^verbatim>\<open>float64\<close> the sum of squares of a
  non-zero vector with tiny components underflows to 0 as well. What is proved below
  about the vectors that the similarity ranker rejects is therefore stated for an
  arbitrary normalisation (\<open>getTopNSimilarEmbeddingsWith\<close>), and the concrete runs use
  numbers that \<^verbatim>\<open>float64\<close> normalises exactly or rejects as the zero vector.
\<close>

definition normalizeVector :: "vec \<Rightarrow> 'e error + vec" where
  "normalizeVector v =
     (let sum = foldl (\<lambda>s x. s + x * x) 0 v in
      if sum = 0 then Inl ZeroVector
      else (let nrm = sqrt sum in Inr (map (\<lambda>x. x / nrm) v)))"

definition dotProduct :: "vec \<Rightarrow> vec \<Rightarrow> 'e error + real" where
  "dotProduct vec1 vec2 =
     (if length vec1 \<noteq> length vec2 then Inl VectorsLengthMismatch
      else Inr (foldl (\<lambda>dotP (a, b). dotP + a * b) 0 (zip vec1 vec2)))"

section \<open>SimilarityRanker: \<open>getTopNSimilarEmbeddings\<close>\<close>

text \<open>
  \<^verbatim>\<open>sort.Slice(xs, less)\<close> belongs to Go's library. It is not stable, and which order it
  gives to elements that compare equal is not specified. The functions below take the
  sort as a parameter \<open>srt\<close>; \<open>sorts_by lt srt\<close> is its contract: the result is a
  permutation of the argument in which no later element is \<open>lt\<close> an earlier one.
\<close>

definition sorts_by :: "('a \<Rightarrow> 'a \<Rightarrow> bool) \<Rightarrow> ('a list \<Rightarrow> 'a list) \<Rightarrow> bool" where
  "sorts_by lt srt \<longleftrightarrow>
     (\<forall>xs. mset (srt xs) = mset xs \<and> sorted_wrt (\<lambda>a b. \<not> lt b a) (srt xs))"

text \<open>The first error of a list of outcomes, or all their values.\<close>

fun collect :: "('x + 'a) list \<Rightarrow> 'x + 'a list" where
  "collect [] = Inr []"
| "collect (Inl e # rs) = Inl e"
| "collect (Inr x # rs) = (case collect rs of Inl e \<Rightarrow> Inl e | Inr xs \<Rightarrow> Inr (x # xs))"

text \<open>
  The goroutine for candidate \<open>i\<close> (vector.go, lines 139-155): what it leaves in
  \<^verbatim>\<open>similarities[i]\<close>. When \<^verbatim>\<open>dotProduct\<close> fails it returns without writing, and the
  slot keeps the zero value it got from \<^verbatim>\<open>make\<close>.
\<close>

definition scoreSlot :: "vec \<Rightarrow> string list \<Rightarrow> nat \<Rightarrow> vec \<Rightarrow> 'e error + Similarity" where
  "scoreSlot normalizedQueryEmbedding ids i embedding =
     (case (dotProduct normalizedQueryEmbedding embedding :: 'e error + real) of
        Inl err \<Rightarrow> Inr \<lparr>SimID = [], Score = 0\<rparr>
      | Inr score \<Rightarrow>
          if i < length ids then Inr \<lparr>SimID = ids ! i, Score = score\<rparr> else Inl Panic)"

definition scoreSlots :: "vec \<Rightarrow> vec list \<Rightarrow> string list \<Rightarrow> 'e error + Similarity list" where
  "scoreSlots normalizedQueryEmbedding embeddings ids =
     collect (map (\<lambda>(i, embedding). scoreSlot normalizedQueryEmbedding ids i embedding)
                  (enumerate 0 embeddings))"

definition getTopNSimilarEmbeddings ::
  "(Similarity list \<Rightarrow> Similarity list) \<Rightarrow> vec \<Rightarrow> vec list \<Rightarrow> string list \<Rightarrow> int
     \<Rightarrow> 'e error + Similarity list" where
  "getTopNSimilarEmbeddings srt queryEmbedding embeddings ids topN =
     (case embeddings of
        [] \<Rightarrow> Inl NoEmbeddingsProvided
      | first # _ \<Rightarrow>
          if length queryEmbedding \<noteq> length first then Inl QueryLengthMismatch
          else
            (case normalizeVector queryEmbedding of
               Inl err \<Rightarrow> Inl err
             | Inr normalizedQueryEmbedding \<Rightarrow>
                 (case scoreSlots normalizedQueryEmbedding embeddings ids of
                    Inl err \<Rightarrow> Inl err
                  | Inr similarities \<Rightarrow>
                      (let sortedSims = srt similarities;
                           n = (if topN > int (length sortedSims) then int (length sortedSims)
                                else topN)
                       in if n < 0 then Inl Panic else Inr (take (nat n) sortedSims)))))"

text \<open>
  The arithmetic of \<^verbatim>\<open>float64\<close> enters the ranker through its calls of \<^verbatim>\<open>normalizeVector\<close>
  and \<^verbatim>\<open>dotProduct\<close> only. In \<open>getTopNSimilarEmbeddings\<close> above the two are the exact
  functions on the reals. Below, the same code has the two calls as parameters:
  \<open>normalizeF\<close> and \<open>dotF\<close> stand for \<^verbatim>\<open>normalizeVector\<close> and \<^verbatim>\<open>dotProduct\<close> as \<^verbatim>\<open>float64\<close>
  computes them, whatever they round to, and whichever vectors \<^verbatim>\<open>normalizeVector\<close> rejects
  (in \<^verbatim>\<open>float64\<close> the sum of squares of a non-zero vector can underflow to 0). What holds
  for every \<open>normalizeF\<close> and \<open>dotF\<close> does not depend on the arithmetic. The scores are
  still reals: NaN and the infinities are outside the model.
\<close>

definition scoreSlotWith ::
  "(vec \<Rightarrow> vec \<Rightarrow> 'e error + real) \<Rightarrow> vec \<Rightarrow> string list \<Rightarrow> nat \<Rightarrow> vec
     \<Rightarrow> 'e error + Similarity" where
  "scoreSlotWith dotF normalizedQueryEmbedding ids i embedding =
     (case dotF normalizedQueryEmbedding embedding of
        Inl err \<Rightarrow> Inr \<lparr>SimID = [], Score = 0\<rparr>
      | Inr score \<Rightarrow>
          if i < length ids then Inr \<lparr>SimID = ids ! i, Score = score\<rparr> else Inl Panic)"

definition scoreSlotsWith ::
  "(vec \<Rightarrow> vec \<Rightarrow> 'e error + real) \<Rightarrow> vec \<Rightarrow> vec list \<Rightarrow> string list
     \<Rightarrow> 'e error + Similarity list" where
  "scoreSlotsWith dotF normalizedQueryEmbedding embeddings ids =
     collect (map (\<lambda>(i, embedding). scoreSlotWith dotF normalizedQueryEmbedding ids i embedding)
                  (enumerate 0 embeddings))"

definition getTopNSimilarEmbeddingsWith ::
  "(vec \<Rightarrow> 'e error + vec) \<Rightarrow> (vec \<Rightarrow> vec \<Rightarrow> 'e error + real)
     \<Rightarrow> (Similarity list \<Rightarrow> Similarity list) \<Rightarrow> vec \<Rightarrow> vec list \<Rightarrow> string list \<Rightarrow> int
     \<Rightarrow> 'e error + Similarity list" where
  "getTopNSimilarEmbeddingsWith normalizeF dotF srt queryEmbedding embeddings ids topN =
     (case embeddings of
        [] \<Rightarrow> Inl NoEmbeddingsProvided
      | first # _ \<Rightarrow>
          if length queryEmbedding \<noteq> length first then Inl QueryLengthMismatch
          else
            (case normalizeF queryEmbedding of
               Inl err \<Rightarrow> Inl err
             | Inr normalizedQueryEmbedding \<Rightarrow>
                 (case scoreSlotsWith dotF normalizedQueryEmbedding embeddings ids of
                    Inl err \<Rightarrow> Inl err
                  | Inr similarities \<Rightarrow>
                      (let sortedSims = srt similarities;
                           n = (if topN > int (length sortedSims) then int (length sortedSims)
                                else topN)
                       in if n < 0 then Inl Panic else Inr (take (nat n) sortedSims)))))"

section \<open>Composite identifiers: \<open>Sprintf\<close>, \<open>LastIndex\<close>, \<open>Atoi\<close>\<close>

text \<open>
  The three library functions the query engine uses on identifiers, modelled from their
  documentation. \<open>formatInt\<close> is the verb \<^verbatim>\<open>%d\<close>: an optional minus sign and the decimal
  digits, most significant first, with no leading zero.
\<close>

definition digitChar :: "nat \<Rightarrow> char" where
  "digitChar d = ''0123456789'' ! d"

fun digits :: "nat \<Rightarrow> string" where
  "digits n = (if n < 10 then [digitChar n] else digits (n div 10) @ [digitChar (n mod 10)])"

definition formatInt :: "int \<Rightarrow> string" where
  "formatInt i = (if i < 0 then CHR ''-'' # digits (nat (- i)) else digits (nat i))"

text \<open>\<^verbatim>\<open>fmt.Sprintf("%s_%d", docID, segmentIndex)\<close> (collection.go, line 249).\<close>

definition compositeID :: "string \<Rightarrow> int \<Rightarrow> string" where
  "compositeID docID segmentIndex = docID @ ''_'' @ formatInt segmentIndex"

text \<open>
  \<^verbatim>\<open>strings.LastIndex(s, "_")\<close> for a one-byte separator \<open>c\<close>: the index of the last
  occurrence of \<open>c\<close>, or \<open>-1\<close>. \<open>lastIndexFrom\<close> scans from index \<open>i\<close> and remembers the last
  occurrence found.
\<close>

primrec lastIndexFrom :: "string \<Rightarrow> char \<Rightarrow> int \<Rightarrow> int \<Rightarrow> int" where
  "lastIndexFrom [] c i found = found"
| "lastIndexFrom (x # xs) c i found = lastIndexFrom xs c (i + 1) (if x = c then i else found)"

definition LastIndex :: "string \<Rightarrow> char \<Rightarrow> int" where
  "LastIndex s c = lastIndexFrom s c 0 (- 1)"

text \<open>
  \<^verbatim>\<open>strconv.Atoi\<close>: an optional sign, then at least one character, all of them decimal
  digits; the value must fit Go's \<^verbatim>\<open>int\<close>. Anything else is an error.
\<close>

definition isDigit :: "char \<Rightarrow> bool" where
  "isDigit ch \<longleftrightarrow> 48 \<le> (of_char ch :: nat) \<and> (of_char ch :: nat) \<le> 57"

definition digitsValue :: "string \<Rightarrow> int" where
  "digitsValue s = foldl (\<lambda>n ch. n * 10 + (int (of_char ch) - 48)) 0 s"

definition Atoi :: "string \<Rightarrow> 'e error + int" where
  "Atoi s =
     (let neg = (s \<noteq> [] \<and> hd s = CHR ''-'');
          ds = (if s \<noteq> [] \<and> (hd s = CHR ''-'' \<or> hd s = CHR ''+'') then tl s else s)
      in if ds = [] \<or> \<not> list_all isDigit ds then Inl AtoiError
         else (let n = (if neg then - digitsValue ds else digitsValue ds)
               in if n < - (2 ^ 63) \<or> n > MaxInt then Inl AtoiError else Inr n))"

text \<open>The closure \<^verbatim>\<open>parseIDAndSegmentIndex\<close> (collection.go, lines 260-273).\<close>

definition parseIDAndSegmentIndex :: "string \<Rightarrow> 'e error + (string \<times> int)" where
  "parseIDAndSegmentIndex id0 =
     (let lastUnderscoreIndex = LastIndex id0 CHR ''_'' in
      if lastUnderscoreIndex = - 1 then Inl (InvalidIDFormat id0)
      else
        (let docID = take (nat lastUnderscoreIndex) id0 in
         case Atoi (drop (nat (lastUnderscoreIndex + 1)) id0) of
           Inl err \<Rightarrow> Inl err
         | Inr segmentIndex \<Rightarrow> Inr (docID, segmentIndex)))"

section \<open>DocumentStore\<close>

text \<open>\<^verbatim>\<open>NewCollection\<close>; a \<^verbatim>\<open>nil\<close> embedding function is \<open>None\<close>.\<close>

definition NewCollection ::
  "string \<Rightarrow> string \<Rightarrow> string \<Rightarrow> int \<Rightarrow> int \<Rightarrow> (runes list \<Rightarrow> string \<Rightarrow> 'e + vec list) option
     \<Rightarrow> 'e error + 'e Collection" where
  "NewCollection name embeddingDocumentType0 embeddingQueryType0 chunkSize chunkOverlap
       embeddingFunc0 =
     (case embeddingFunc0 of
        None \<Rightarrow> Inl EmbeddingFunctionRequired
      | Some f \<Rightarrow>
          if chunkSize \<le> 0 then Inl ChunkSizeNotPositive
          else if chunkOverlap < 0 then Inl ChunkOverlapNegative
          else if chunkOverlap \<ge> chunkSize then Inl ChunkOverlapTooLarge
          else if name = [] then Inl CollectionNameRequired
          else if embeddingDocumentType0 = [] then Inl EmbeddingDocumentTypeRequired
          else if embeddingQueryType0 = [] then Inl EmbeddingQueryTypeRequired
          else Inr \<lparr>Name = name, documents = Map.empty, embeddingFunc = f,
                     embeddingDocumentType = embeddingDocumentType0,
                     embeddingQueryType = embeddingQueryType0,
                     ChunkSize = chunkSize, ChunkOverlap = chunkOverlap\<rparr>)"

text \<open>
  The loop of \<^verbatim>\<open>AddDocument\<close> over the embeddings (collection.go, lines 96-108), from
  index \<open>i\<close> on. \<^verbatim>\<open>segments[i]\<close> panics when the generator returned more embeddings than
  there are segments.
\<close>

fun addSegments ::
  "'m memory \<Rightarrow> ptr \<Rightarrow> runes list \<Rightarrow> vec list \<Rightarrow> nat \<Rightarrow> 'e error option \<times> 'm memory" where
  "addSegments mem doc segments [] i = (None, mem)"
| "addSegments mem doc segments (embedding # rest) i =
     (case normalizeVector embedding of
        Inl err \<Rightarrow> (Some err, mem)
      | Inr nrm \<Rightarrow>
          if i < length segments then
            (let (p, mem1) = newSegment mem \<lparr>Text = segments ! i, Embedding = nrm\<rparr>
             in addSegments (appendSegment mem1 doc p) doc segments rest (Suc i))
          else (Some Panic, mem))"

text \<open>
  \<^verbatim>\<open>AddDocument\<close>. The result is the returned error (\<open>None\<close> for \<^verbatim>\<open>nil\<close>), the collection
  and the memory after the call; the outer \<open>None\<close> is a call that does not return.
\<close>

definition AddDocument ::
  "'e Collection \<Rightarrow> 'm memory \<Rightarrow> ptr
     \<Rightarrow> ('e error option \<times> 'e Collection \<times> 'm memory) option" where
  "AddDocument c mem doc =
     (case derefDoc mem doc of
        Inl err \<Rightarrow> Some (Some err, c, mem)
      | Inr d \<Rightarrow>
          if ID d = [] then Some (Some DocumentIDRequired, c, mem)
          else if documents c (ID d) \<noteq> None then Some (Some (DocumentExists (ID d)), c, mem)
          else if Content d = [] then Some (Some DocumentContentRequired, c, mem)
          else
            (case splitText c (Content d) of
               None \<Rightarrow> None
             | Some (Inl err) \<Rightarrow> Some (Some err, c, mem)
             | Some (Inr segments) \<Rightarrow>
                 (case embeddingFunc c segments (embeddingDocumentType c) of
                    Inl err \<Rightarrow> Some (Some (GeneratorError err), c, mem)
                  | Inr embeddings \<Rightarrow>
                      (case addSegments mem doc segments embeddings 0 of
                         (Some err, mem') \<Rightarrow> Some (Some err, c, mem')
                       | (None, mem') \<Rightarrow>
                           Some (None, c\<lparr>documents := (documents c)(ID d \<mapsto> doc)\<rparr>, mem')))))"

definition GetDocument :: "'e Collection \<Rightarrow> string \<Rightarrow> ptr \<times> bool" where
  "GetDocument c id0 = (case documents c id0 of None \<Rightarrow> (Nil, False) | Some doc \<Rightarrow> (doc, True))"

definition DeleteDocument :: "'e Collection \<Rightarrow> string \<Rightarrow> 'e error option \<times> 'e Collection" where
  "DeleteDocument c id0 =
     (if documents c id0 = None then (Some (DocumentNotFound id0), c)
      else (None, c\<lparr>documents := (documents c)(id0 := None)\<rparr>))"

definition UpdateDocument ::
  "'e Collection \<Rightarrow> 'm memory \<Rightarrow> ptr \<Rightarrow> 'e error option \<times> 'e Collection" where
  "UpdateDocument c mem doc =
     (case derefDoc mem doc of
        Inl err \<Rightarrow> (Some err, c)
      | Inr d \<Rightarrow>
          if ID d = [] then (Some DocumentIDRequired, c)
          else if documents c (ID d) = None then (Some (DocumentNotFound (ID d)), c)
          else if Content d = [] then (Some DocumentContentRequired, c)
          else (None, c\<lparr>documents := (documents c)(ID d \<mapsto> doc)\<rparr>))"

definition Length :: "'e Collection \<Rightarrow> nat" where
  "Length c = card (dom (documents c))"

text \<open>
  \<^verbatim>\<open>EmbedDocuments\<close>. \<open>createSegments\<close> is its last loop (lines 210-216), from index \<open>i\<close>
  on; \<^verbatim>\<open>embeddings[i]\<close> panics when the generator returned fewer embeddings than there
  are segments. \<open>embedDocument\<close> is the body of the loop over the documents (lines
  184-216).
\<close>

fun createSegments ::
  "'m memory \<Rightarrow> ptr \<Rightarrow> runes list \<Rightarrow> vec list \<Rightarrow> nat \<Rightarrow> 'e error option \<times> 'm memory" where
  "createSegments mem doc [] embeddings i = (None, mem)"
| "createSegments mem doc (segmentText # rest) embeddings i =
     (if i < length embeddings then
        (let (p, mem1) = newSegment mem \<lparr>Text = segmentText, Embedding = embeddings ! i\<rparr>
         in createSegments (appendSegment mem1 doc p) doc rest embeddings (Suc i))
      else (Some Panic, mem))"

definition embedDocument ::
  "'e Collection \<Rightarrow> 'm memory \<Rightarrow> ptr \<Rightarrow> ('e error option \<times> 'm memory) option" where
  "embedDocument c mem doc =
     (case derefDoc mem doc of
        Inl err \<Rightarrow> Some (Some err, mem)
      | Inr d \<Rightarrow>
          if Content d = [] then Some (Some DocumentContentRequired, mem)
          else
            (case splitText c (Content d) of
               None \<Rightarrow> None
             | Some (Inl err) \<Rightarrow> Some (Some err, mem)
             | Some (Inr segments) \<Rightarrow>
                 (case embeddingFunc c segments (embeddingDocumentType c) of
                    Inl err \<Rightarrow> Some (Some (GeneratorError err), mem)
                  | Inr embeddings \<Rightarrow>
                      (case collect (map normalizeVector embeddings) of
                         Inl err \<Rightarrow> Some (Some err, mem)
                       | Inr normalized \<Rightarrow> Some (createSegments mem doc segments normalized 0)))))"

text \<open>
  Go visits the keys of a map in an order it does not specify. \<open>EmbedDocuments\<close> takes
  the order of this call as the list \<open>keys\<close>; \<open>range_of m keys\<close> says that \<open>keys\<close> is such
  an order for the map \<open>m\<close>.
\<close>

definition range_of :: "('k \<rightharpoonup> 'v) \<Rightarrow> 'k list \<Rightarrow> bool" where
  "range_of m keys \<longleftrightarrow> distinct keys \<and> set keys = dom m"

fun EmbedDocuments_loop ::
  "'e Collection \<Rightarrow> 'm memory \<Rightarrow> string list \<Rightarrow> ('e error option \<times> 'm memory) option" where
  "EmbedDocuments_loop c mem [] = Some (None, mem)"
| "EmbedDocuments_loop c mem (docID # rest) =
     (case documents c docID of
        None \<Rightarrow> EmbedDocuments_loop c mem rest
      | Some doc \<Rightarrow>
          (case embedDocument c mem doc of
             None \<Rightarrow> None
           | Some (Some err, mem') \<Rightarrow> Some (Some err, mem')
           | Some (None, mem') \<Rightarrow> EmbedDocuments_loop c mem' rest))"

definition EmbedDocuments ::
  "string list \<Rightarrow> 'e Collection \<Rightarrow> 'm memory \<Rightarrow> ('e error option \<times> 'm memory) option" where
  "EmbedDocuments keys c mem = EmbedDocuments_loop c mem keys"

section \<open>QueryEngine\<close>

text \<open>
  What Go leaves open in one call of \<^verbatim>\<open>GetTopNSimilarDocuments\<close>: the order in which
  \<^verbatim>\<open>range c.documents\<close> visits the keys, and the two sorts. The goroutines of lines
  279-308 append their results in the order the scheduler runs them, and the slice is
  sorted right after: \<open>sortResults\<close> stands for both steps, applied to the results in the
  order of the similarities.
\<close>

record env =
  rangeDocuments :: "string list"
  sortSimilarities :: "Similarity list \<Rightarrow> Similarity list"
  sortResults :: "Result list \<Rightarrow> Result list"

text \<open>
  Lines 246-251: the candidates, as pairs of an embedding and its composite identifier
  (the source keeps them in the two slices \<^verbatim>\<open>embeddings\<close> and \<^verbatim>\<open>ids\<close>).
\<close>

fun flattenSegments ::
  "'m memory \<Rightarrow> string \<Rightarrow> ptr list \<Rightarrow> nat \<Rightarrow> 'e error + (vec \<times> string) list" where
  "flattenSegments mem docID [] segmentIndex = Inr []"
| "flattenSegments mem docID (segment # rest) segmentIndex =
     (case derefSeg mem segment of
        Inl err \<Rightarrow> Inl err
      | Inr s \<Rightarrow>
          (case flattenSegments mem docID rest (Suc segmentIndex) of
             Inl err \<Rightarrow> Inl err
           | Inr cands \<Rightarrow> Inr ((Embedding s, compositeID docID (int segmentIndex)) # cands)))"

fun flattenDocuments ::
  "'e Collection \<Rightarrow> 'm memory \<Rightarrow> string list \<Rightarrow> 'e error + (vec \<times> string) list" where
  "flattenDocuments c mem [] = Inr []"
| "flattenDocuments c mem (docID # rest) =
     (case documents c docID of
        None \<Rightarrow> flattenDocuments c mem rest
      | Some doc \<Rightarrow>
          (case derefDoc mem doc of
             Inl err \<Rightarrow> Inl err
           | Inr d \<Rightarrow>
               (case flattenSegments mem docID (Segments d) 0 of
                  Inl err \<Rightarrow> Inl err
                | Inr cands \<Rightarrow>
                    (case flattenDocuments c mem rest of
                       Inl err \<Rightarrow> Inl err
                     | Inr cands' \<Rightarrow> Inr (cands @ cands')))))"

text \<open>
  The goroutine of lines 281-307 for one similarity: \<open>Inr None\<close> when it skips the
  similarity, \<open>Inr (Some r)\<close> when it appends the result \<open>r\<close>.
\<close>

definition resolveSimilarity ::
  "'e Collection \<Rightarrow> 'm memory \<Rightarrow> Similarity \<Rightarrow> 'e error + Result option" where
  "resolveSimilarity c mem sim =
     (case (parseIDAndSegmentIndex (SimID sim) :: 'e error + (string \<times> int)) of
        Inl err \<Rightarrow> Inr None
      | Inr (docID, segmentIndex) \<Rightarrow>
          (case documents c docID of
             None \<Rightarrow> Inr None
           | Some doc \<Rightarrow>
               (case derefDoc mem doc of
                  Inl err \<Rightarrow> Inl err
                | Inr d \<Rightarrow>
                    if segmentIndex < 0 \<or> segmentIndex \<ge> int (length (Segments d)) then Inr None
                    else Inr (Some \<lparr>Document = doc,
                                     Segment = Segments d ! nat segmentIndex,
                                     Similarity = Score sim\<rparr>))))"

definition GetTopNSimilarDocuments ::
  "env \<Rightarrow> 'e Collection \<Rightarrow> 'm memory \<Rightarrow> runes \<Rightarrow> int \<Rightarrow> 'e error + Result list" where
  "GetTopNSimilarDocuments env c mem query topN =
     (case embeddingFunc c [query] (embeddingQueryType c) of
        Inl err \<Rightarrow> Inl (GeneratorError err)
      | Inr queryEmbedding \<Rightarrow>
          (case queryEmbedding of
             [] \<Rightarrow> Inl NoQueryEmbedding
           | queryEmbedding0 # _ \<Rightarrow>
               (case flattenDocuments c mem (rangeDocuments env) of
                  Inl err \<Rightarrow> Inl err
                | Inr candidates \<Rightarrow>
                    (case getTopNSimilarEmbeddings (sortSimilarities env) queryEmbedding0
                            (map fst candidates) (map snd candidates) topN of
                       Inl err \<Rightarrow> Inl err
                     | Inr similarities \<Rightarrow>
                         (case collect (map (resolveSimilarity c mem) similarities) of
                            Inl err \<Rightarrow> Inl err
                          | Inr resolved \<Rightarrow>
                              Inr (sortResults env (List.map_filter (\<lambda>r. r) resolved)))))))"

text \<open>
  \<^verbatim>\<open>GetTopNSimilarDocumentsForQueries\<close>. The map \<^verbatim>\<open>uniqueResults\<close> is an association list
  with one entry per key, in the order the keys were first written. \<open>mergeResult\<close> is
  the body of the inner loop of lines 364-377.
\<close>

definition mergeResult ::
  "'m memory \<Rightarrow> (string \<times> Result) list \<Rightarrow> Result \<Rightarrow> 'e error + (string \<times> Result) list" where
  "mergeResult mem uniqueResults res =
     (case derefDoc mem (Document res) of
        Inl err \<Rightarrow> Inl err
      | Inr d \<Rightarrow>
          (case map_of uniqueResults (ID d) of
             None \<Rightarrow> Inr (uniqueResults @ [(ID d, res)])
           | Some existingRes \<Rightarrow>
               if Similarity res > Similarity existingRes
               then Inr (AList.update (ID d) res uniqueResults)
               else Inr uniqueResults))"

fun mergeResults ::
  "'m memory \<Rightarrow> (string \<times> Result) list \<Rightarrow> Result list \<Rightarrow> 'e error + (string \<times> Result) list" where
  "mergeResults mem uniqueResults [] = Inr uniqueResults"
| "mergeResults mem uniqueResults (res # rest) =
     (case mergeResult mem uniqueResults res of
        Inl err \<Rightarrow> Inl err
      | Inr uniqueResults' \<Rightarrow> mergeResults mem uniqueResults' rest)"

text \<open>The \<^verbatim>\<open>results\<close> of one slot of \<^verbatim>\<open>queryResults\<close>: empty for a query that failed.\<close>

definition slotResults :: "'e error + Result list \<Rightarrow> Result list" where
  "slotResults outcome = (case outcome of Inl err \<Rightarrow> [] | Inr results \<Rightarrow> results)"

text \<open>
  \<open>envs i\<close> is what Go leaves open in the call for query \<open>i\<close>. \<open>srt\<close> stands for
  lines 380-387: the values of \<^verbatim>\<open>uniqueResults\<close> are collected in the order of
  \<^verbatim>\<open>range\<close>, which Go does not specify, and sorted. A panic in the goroutine of one
  query ends the program: the call panics.
\<close>

definition queryOutcomes ::
  "(nat \<Rightarrow> env) \<Rightarrow> 'e Collection \<Rightarrow> 'm memory \<Rightarrow> runes list \<Rightarrow> int
     \<Rightarrow> ('e error + Result list) list" where
  "queryOutcomes envs c mem queries topN =
     map (\<lambda>(i, query). GetTopNSimilarDocuments (envs i) c mem query topN) (enumerate 0 queries)"

definition GetTopNSimilarDocumentsForQueries ::
  "(nat \<Rightarrow> env) \<Rightarrow> (Result list \<Rightarrow> Result list) \<Rightarrow> 'e Collection \<Rightarrow> 'm memory
     \<Rightarrow> runes list \<Rightarrow> int \<Rightarrow> 'e error + Result list" where
  "GetTopNSimilarDocumentsForQueries envs srt c mem queries topN =
     (let outcomes = queryOutcomes envs c mem queries topN in
      if Inl Panic \<in> set outcomes then Inl Panic
      else
        (let errNum = length (filter isl outcomes) in
         if errNum = length queries then Inl AllQueriesFailed
         else
           (case mergeResults mem [] (concat (map slotResults outcomes)) of
              Inl err \<Rightarrow> Inl err
            | Inr uniqueResults \<Rightarrow>
                (let results = srt (map snd uniqueResults) in
                 if int (length results) > topN
                 then (if topN < 0 then Inl Panic else Inr (take (nat topN) results))
                 else Inr results))))"

section \<open>ResultAggregator\<close>













section \<open>Specification-side definitions\<close>

text \<open>
  The windows of the specification, in its words: the window \<open>[i, j)\<close> of a sequence;
  the start offsets \<open>i = 0, S-O, 2(S-O), ...\<close> while \<open>i < L\<close>; and the windows
  \<open>[i, min(i+S, L))\<close> at these offsets, from left to right. (The overlap is written
  \<open>V\<close>: \<open>O\<close> is taken by Isabelle's syntax.)
\<close>

definition window :: "'a list \<Rightarrow> nat \<Rightarrow> nat \<Rightarrow> 'a list" where
  "window xs i j = take (j - i) (drop i xs)"

definition windowStarts :: "nat \<Rightarrow> nat \<Rightarrow> nat \<Rightarrow> nat list" where
  "windowStarts S V L = filter (\<lambda>i. (S - V) dvd i) [0..<L]"

definition specWindows :: "nat \<Rightarrow> nat \<Rightarrow> 'a list \<Rightarrow> 'a list list" where
  "specWindows S V xs =
     map (\<lambda>i. window xs i (min (i + S) (length xs))) (windowStarts S V (length xs))"

text \<open>
  The (id, score) pairs of claim C7: one for every candidate, in the candidates' order,
  with the dot product of the normalised query and the candidate's embedding as score.
  It is used where every dot product succeeds.
\<close>

definition candidateScores ::
  "(vec \<Rightarrow> vec \<Rightarrow> 'e error + real) \<Rightarrow> vec \<Rightarrow> string list \<Rightarrow> vec list \<Rightarrow> Similarity list" where
  "candidateScores dotF normalizedQueryEmbedding ids embeddings =
     map (\<lambda>(id0, embedding).
            \<lparr>SimID = id0, Score = projr (dotF normalizedQueryEmbedding embedding)\<rparr>)
         (zip ids embeddings)"

text \<open>
  The invariant of claim C10: every entry of the document map points to a document whose
  \<open>ID\<close> is the key and is not empty, and whose \<open>Content\<close> is not empty.
\<close>

definition store_inv :: "'e Collection \<Rightarrow> 'm memory \<Rightarrow> bool" where
  "store_inv c mem \<longleftrightarrow>
     (\<forall>k p. documents c k = Some p \<longrightarrow>
        (\<exists>a d. p = Ptr a \<and> docHeap mem a = Some d \<and> ID d = k \<and> ID d \<noteq> [] \<and> Content d \<noteq> []))"

text \<open>
  \<open>segments_extended mem mem' doc\<close>: from \<open>mem\<close> to \<open>mem'\<close> no document appeared or vanished,
  only the document at \<open>doc\<close> may differ, and a document differs at most by segments
  appended to its \<open>Segments\<close>.
\<close>

definition segments_extended :: "'m memory \<Rightarrow> 'm memory \<Rightarrow> ptr \<Rightarrow> bool" where
  "segments_extended mem mem' doc \<longleftrightarrow>
     (\<forall>a. (Ptr a \<noteq> doc \<longrightarrow> docHeap mem' a = docHeap mem a) \<and>
          (docHeap mem a = None \<longrightarrow> docHeap mem' a = None) \<and>
          (\<forall>d. docHeap mem a = Some d \<longrightarrow>
                (\<exists>ps. docHeap mem' a = Some (d\<lparr>Segments := Segments d @ ps\<rparr>))))"

text \<open>
  The segments produced by re-segmenting and re-embedding the current content of a
  document: its chunks, each with the normalised embedding the generator returned for it
  (\<open>None\<close> when one of the steps fails or the generator returns too few embeddings).
\<close>

definition reembedded :: "'e Collection \<Rightarrow> 'm Document \<Rightarrow> Segment list option" where
  "reembedded c d =
     (case splitText c (Content d) of
        Some (Inr segments) \<Rightarrow>
          (case embeddingFunc c segments (embeddingDocumentType c) of
             Inr embeddings \<Rightarrow>
               (case (collect (map normalizeVector embeddings) :: 'e error + vec list) of
                  Inr normalized \<Rightarrow>
                    if length segments \<le> length normalized
                    then Some (map2 (\<lambda>t e. \<lparr>Text = t, Embedding = e\<rparr>) segments normalized)
                    else None
                | Inl err \<Rightarrow> None)
           | Inl err \<Rightarrow> None)
      | _ \<Rightarrow> None)"













section \<open>Concrete inputs\<close>

text \<open>A collection with no documents, whose generator returns no embedding.\<close>

definition exampleCollection :: "int \<Rightarrow> int \<Rightarrow> unit Collection" where
  "exampleCollection chunkSize chunkOverlap =
     \<lparr>Name = ''c'', documents = Map.empty, embeddingFunc = (\<lambda>inputs t. Inr []),
      embeddingDocumentType = ''document'', embeddingQueryType = ''query'',
      ChunkSize = chunkSize, ChunkOverlap = chunkOverlap\<rparr>"

text \<open>
  A sort that meets the contract of \<^verbatim>\<open>sort.Slice\<close> for a descending key: insertion sort
  by the negated key.
\<close>

definition sortByDesc :: "('a \<Rightarrow> real) \<Rightarrow> 'a list \<Rightarrow> 'a list" where
  "sortByDesc key xs = sort_key (\<lambda>x. - key x) xs"

text \<open>
  The collection of the package's tests (\<^verbatim>\<open>NewCollection("test", "docType", "queryType",
  100, 10, ...)\<close>) with a given generator, chunk parameters and document map; a document
  without metadata; a generator that answers every call with the one embedding
  \<open>[1, 0]\<close> (the tests' mock answers \<open>[1.0, 2.0]\<close>), and one whose second embedding is
  the zero vector.
\<close>

definition testCollection ::
  "(runes list \<Rightarrow> string \<Rightarrow> unit + vec list) \<Rightarrow> int \<Rightarrow> int \<Rightarrow> (string \<rightharpoonup> ptr) \<Rightarrow> unit Collection" where
  "testCollection gen chunkSize chunkOverlap docs =
     \<lparr>Name = ''test'', documents = docs, embeddingFunc = gen,
      embeddingDocumentType = ''docType'', embeddingQueryType = ''queryType'',
      ChunkSize = chunkSize, ChunkOverlap = chunkOverlap\<rparr>"

definition testDocument :: "string \<Rightarrow> runes \<Rightarrow> ptr list \<Rightarrow> unit Document" where
  "testDocument id0 content segs = \<lparr>ID = id0, Metadata = (), Segments = segs, Content = content\<rparr>"

definition unitGen :: "runes list \<Rightarrow> string \<Rightarrow> unit + vec list" where
  "unitGen inputs embeddingType = Inr [[1, 0]]"

definition zeroSecondGen :: "runes list \<Rightarrow> string \<Rightarrow> unit + vec list" where
  "zeroSecondGen inputs embeddingType = Inr [[1, 0], [0, 0]]"








section \<open>The segmenter (claim C6)\<close>

lemma wrap64_id: "- (2 ^ 63) \<le> x \<Longrightarrow> x \<le> MaxInt \<Longrightarrow> wrap64 x = x"
proof -
  assume "- (2 ^ 63) \<le> x" "x \<le> MaxInt"
  then have "(x + 2 ^ 63) mod 2 ^ 64 = x + 2 ^ 63"
    unfolding MaxInt_def by (intro mod_pos_pos_trivial) auto
  then show ?thesis unfolding wrap64_def by simp
qed

lemma filter_dvd_skip:
  assumes "(s::nat) dvd i" "0 < s"
  shows "filter (\<lambda>j. s dvd j) [Suc i..<L] = filter (\<lambda>j. s dvd j) [i + s..<L]"
proof (cases "i + s \<le> L")
  case True
  have none: "filter (\<lambda>j. s dvd j) [Suc i..<i + s] = []"
  proof -
    have "\<not> s dvd j" if "Suc i \<le> j" "j < i + s" for j
    proof
      assume "s dvd j"
      with assms have "s dvd (j - i)" by (simp add: dvd_diff_nat)
      moreover have "0 < j - i" "j - i < s" using that by auto
      ultimately show False using nat_dvd_not_less by blast
    qed
    then show ?thesis by (auto simp: filter_empty_conv)
  qed
  obtain k where k: "L = (i + s) + k" using True le_Suc_ex by blast
  have "Suc i \<le> i + s" using assms(2) by simp
  then have "[Suc i..<(i + s) + k] = [Suc i..<i + s] @ [i + s..<(i + s) + k]"
    by (rule upt_add_eq_append)
  then show ?thesis unfolding k by (simp only: filter_append none append_Nil)
next
  case False
  have "\<not> s dvd j" if "Suc i \<le> j" "j < L" for j
  proof
    assume "s dvd j"
    with assms have "s dvd (j - i)" by (simp add: dvd_diff_nat)
    moreover have "0 < j - i" "j - i < s" using that False by auto
    ultimately show False using nat_dvd_not_less by blast
  qed
  then have "filter (\<lambda>j. s dvd j) [Suc i..<L] = []" by (auto simp: filter_empty_conv)
  moreover have "[i + s..<L] = []" using False by simp
  ultimately show ?thesis by (simp only: filter.simps)
qed

lemma splitText_loop_windows:
  assumes S: "0 < S" and V: "0 \<le> V" "V < S"
    and fit: "\<forall>j < length runes. nat (S - V) dvd j \<longrightarrow> int j + S \<le> MaxInt"
    and dvd: "nat (S - V) dvd i"
  shows "(splitText_loop S V runes (int i) chunks :: ('e error + runes list) option) =
           Some (Inr (chunks @ map (\<lambda>i. window runes i (min (i + nat S) (length runes)))
                                   (filter (\<lambda>j. nat (S - V) dvd j) [i..<length runes])))"
  using dvd
proof (induction "length runes - i" arbitrary: i chunks rule: less_induct)
  case less
  show ?case
  proof (cases "i < length runes")
    case False
    then show ?thesis by (subst splitText_loop.simps) simp
  next
    case True
    have fits: "int i + S \<le> MaxInt" using True less.prems fit by blast
    have w1: "wrap64 (int i + S) = int i + S"
      using S fits by (intro wrap64_id) auto
    have w2: "wrap64 (S - V) = S - V"
      using S V fits by (intro wrap64_id) auto
    have w3: "wrap64 (int i + (S - V)) = int (i + nat (S - V))"
      using S V fits by (subst wrap64_id) auto
    have sl: "slice runes (int i) (if int i + S > int (length runes) then int (length runes) else int i + S)
                = (Inr (window runes i (min (i + nat S) (length runes))) :: 'e error + runes)"
      using True S unfolding slice_def window_def
      by (auto simp: min_def nat_add_distrib nat_diff_distrib)
    have step: "nat (S - V) dvd (i + nat (S - V))" using less.prems by simp
    have pos: "0 < nat (S - V)" using V by simp
    have IH: "(splitText_loop S V runes (int (i + nat (S - V))) (chunks @ [window runes i (min (i + nat S) (length runes))])
         :: ('e error + runes list) option)
       = Some (Inr ((chunks @ [window runes i (min (i + nat S) (length runes))]) @
            map (\<lambda>i. window runes i (min (i + nat S) (length runes)))
               (filter (\<lambda>j. nat (S - V) dvd j) [i + nat (S - V)..<length runes])))"
    proof -
      have decr: "length runes - (i + nat (S - V)) < length runes - i"
        using True pos by arith
      show ?thesis by (rule less.hyps[OF decr step])
    qed
    have flt: "filter (\<lambda>j. nat (S - V) dvd j) [i..<length runes]
          = i # filter (\<lambda>j. nat (S - V) dvd j) [i + nat (S - V)..<length runes]"
      using True less.prems filter_dvd_skip[OF less.prems pos, of "length runes"]
      by (simp add: upt_conv_Cons)
    show ?thesis
      apply (subst splitText_loop.simps)
      apply (simp only: Let_def w1 w2 w3 sl)
      using True IH flt by simp
  qed
qed


lemma windowStarts_cover:
  assumes "0 < S - V" "S - V \<le> S" "j < L"
  shows "\<exists>i \<in> set (windowStarts S V L). i \<le> j \<and> j < min (i + S) L"
proof -
  let ?i = "(j div (S - V)) * (S - V)"
  have le: "?i \<le> j" by (rule div_times_less_eq_dividend)
  have "j < ?i + (S - V)" using assms(1) dividend_less_div_times
    by (metis add.commute mult.commute)
  then have "j < min (?i + S) L" using assms(2,3) by simp
  moreover have "?i < L" using le assms(3) by (rule le_less_trans)
  then have "?i \<in> set (windowStarts S V L)"
    by (simp add: windowStarts_def)
  ultimately show ?thesis using le by blast
qed

lemma windowStarts_250: "windowStarts 100 10 250 = [0, 90, 180]"
  unfolding windowStarts_def by code_simp

text \<open>
  What \<open>splitText\<close> computes where the sum \<^verbatim>\<open>i + c.ChunkSize\<close> of line 402 stays within Go's
  \<^verbatim>\<open>int\<close> at every window start \<open>i\<close>: for a chunk size \<open>S > 0\<close>, an overlap \<open>0 \<le> V < S\<close> and
  a content of \<open>L\<close> code points it returns exactly the windows \<open>[i, min(i+S, L))\<close> for
  \<open>i = 0, S-V, 2(S-V), ...\<close> while \<open>i < L\<close>, from left to right; every code point lies in one
  of them; and a content of 250 code points with \<open>S = 100\<close>, \<open>V = 10\<close> gives the three
  windows that start at 0, 90 and 180.
\<close>

lemma splitText_windows:
  assumes "0 < ChunkSize c" "0 \<le> ChunkOverlap c" "ChunkOverlap c < ChunkSize c"
    and "\<forall>i \<in> set (windowStarts (nat (ChunkSize c)) (nat (ChunkOverlap c)) (length txt)).
           int i + ChunkSize c \<le> MaxInt"
  shows "splitText c txt
           = Some (Inr (specWindows (nat (ChunkSize c)) (nat (ChunkOverlap c)) txt))
       \<and> (\<forall>j < length txt.
             \<exists>i \<in> set (windowStarts (nat (ChunkSize c)) (nat (ChunkOverlap c)) (length txt)).
               i \<le> j \<and> j < min (i + nat (ChunkSize c)) (length txt))
       \<and> (length txt = 250 \<and> ChunkSize c = 100 \<and> ChunkOverlap c = 10 \<longrightarrow>
             splitText c txt
               = Some (Inr [window txt 0 100, window txt 90 190, window txt 180 250]))"
proof -
  have sub: "nat (ChunkSize c - ChunkOverlap c) = nat (ChunkSize c) - nat (ChunkOverlap c)"
    using assms by (simp add: nat_diff_distrib)
  have fit: "\<forall>j < length txt. nat (ChunkSize c - ChunkOverlap c) dvd j
               \<longrightarrow> int j + ChunkSize c \<le> MaxInt"
    using assms(4) by (simp add: windowStarts_def sub)
  have loop: "splitText c txt
           = Some (Inr (specWindows (nat (ChunkSize c)) (nat (ChunkOverlap c)) txt))"
    unfolding splitText_def specWindows_def windowStarts_def
    using splitText_loop_windows[OF assms(1-3) fit, of 0 "[]"] by (simp add: sub)
  have cover: "\<forall>j < length txt.
             \<exists>i \<in> set (windowStarts (nat (ChunkSize c)) (nat (ChunkOverlap c)) (length txt)).
               i \<le> j \<and> j < min (i + nat (ChunkSize c)) (length txt)"
    using assms by (intro allI impI windowStarts_cover) auto
  have ex: "splitText c txt
               = Some (Inr [window txt 0 100, window txt 90 190, window txt 180 250])"
    if "length txt = 250" "ChunkSize c = 100" "ChunkOverlap c = 10"
    using loop that by (simp add: specWindows_def windowStarts_250)
  show ?thesis using loop cover ex by blast
qed

lemma splitText_250:
  "splitText (exampleCollection 100 10) [0..<250]
     = Some (Inr [[0..<100], [90..<190], [180..<250]])"
  using splitText_windows[of "exampleCollection 100 10" "[0..<250]"]
  by (simp add: exampleCollection_def MaxInt_def window_def specWindows_def windowStarts_250)

text \<open>
  Claim C6 says that for every valid pair of parameters \<open>splitText\<close> produces the windows
  \<open>[i, min(i+S, L))\<close>. The code with the largest chunk size \<open>S = 9223372036854775807\<close> and the overlap
  \<open>S - 1\<close>, which \<open>NewCollection\<close> accepts, on a content of two code points: the windows
  of the claim are \<open>[0, 2)\<close> and \<open>[1, 2)\<close>; the code takes the first, and at the second
  window start \<^verbatim>\<open>i + c.ChunkSize\<close> wraps around to a negative number, the clamp
  \<^verbatim>\<open>if end > len(runes)\<close> does not apply and the slice expression \<^verbatim>\<open>runes[i:end]\<close> panics.
\<close>

theorem splitText_overflow_panics:
  "(NewCollection ''c'' ''document'' ''query'' 9223372036854775807 9223372036854775806
       (Some (\<lambda>inputs t. Inr [])) :: unit error + unit Collection)
     = Inr (exampleCollection 9223372036854775807 9223372036854775806)
   \<and> (splitText (exampleCollection 9223372036854775807 9223372036854775806) [97, 98]
        :: (unit error + runes list) option)
       = Some (Inl Panic)
   \<and> specWindows 9223372036854775807 9223372036854775806 [97, 98 :: nat] = [[97, 98], [98]]"
proof -
  have starts: "windowStarts 9223372036854775807 9223372036854775806 (length [97, 98 :: nat])
      = [0, 1]"
    by (simp add: windowStarts_def upt_rec)
  have "specWindows 9223372036854775807 9223372036854775806 [97, 98 :: nat] = [[97, 98], [98]]"
    unfolding specWindows_def starts by (simp add: window_def)
  then show ?thesis
    by (simp add: NewCollection_def exampleCollection_def splitText_def splitText_loop.simps
        wrap64_def slice_def)
qed

section \<open>Composite identifiers (claim C4)\<close>

lemma digit_cases:
  "d < 10 \<Longrightarrow> d = 0 \<or> d = 1 \<or> d = 2 \<or> d = 3 \<or> d = 4 \<or> d = 5 \<or> d = 6 \<or> d = 7 \<or> d = 8 \<or> d = (9::nat)"
  by arith

lemma digitChar_value: "d < 10 \<Longrightarrow> (of_char (digitChar d) :: nat) = 48 + d"
  using digit_cases[of d] by (auto simp: digitChar_def)

lemma digitChar_isDigit: "d < 10 \<Longrightarrow> isDigit (digitChar d)"
  by (simp add: isDigit_def digitChar_value)

lemma isDigit_not_separator: "isDigit ch \<Longrightarrow> ch \<noteq> CHR ''_'' \<and> ch \<noteq> CHR ''-'' \<and> ch \<noteq> CHR ''+''"
  by (auto simp: isDigit_def)

declare digits.simps [simp del]

lemma digits_all_digits: "list_all isDigit (digits n)"
proof (induction n rule: digits.induct)
  case (1 n)
  show ?case
  proof (cases "n < 10")
    case True
    then show ?thesis by (subst digits.simps) (simp add: digitChar_isDigit)
  next
    case False
    then show ?thesis using 1 by (subst digits.simps) (simp add: digitChar_isDigit)
  qed
qed

lemma digits_not_empty: "digits n \<noteq> []"
  by (subst digits.simps) simp

lemma digitsValue_snoc:
  "digitsValue (s @ [ch]) = digitsValue s * 10 + (int (of_char ch) - 48)"
  by (simp add: digitsValue_def)

lemma digitsValue_digits: "digitsValue (digits n) = int n"
proof (induction n rule: digits.induct)
  case (1 n)
  show ?case
  proof (cases "n < 10")
    case True
    then show ?thesis
      by (subst digits.simps) (simp add: digitsValue_def digitChar_value)
  next
    case False
    then have "digitsValue (digits n) = int (n div 10) * 10 + int (n mod 10)"
      using 1 by (subst digits.simps) (simp add: digitsValue_snoc digitChar_value)
    then show ?thesis by (simp add: zdiv_int zmod_int)
  qed
qed

lemma Atoi_digits:
  assumes "int n \<le> MaxInt"
  shows "Atoi (digits n) = Inr (int n)"
proof -
  have hd: "isDigit (hd (digits n))"
    using digits_all_digits[of n] digits_not_empty[of n]
    by (cases "digits n") simp_all
  then have nosign: "hd (digits n) \<noteq> CHR ''-''" "hd (digits n) \<noteq> CHR ''+''"
    using isDigit_not_separator by blast+
  show ?thesis
    using assms nosign digits_not_empty[of n] digits_all_digits[of n]
    by (simp add: Atoi_def digitsValue_digits)
qed

lemma lastIndexFrom_absent: "c \<notin> set s \<Longrightarrow> lastIndexFrom s c i found = found"
  by (induction s arbitrary: i) auto

lemma lastIndexFrom_append:
  "lastIndexFrom (xs @ ys) c i found
     = lastIndexFrom ys c (i + int (length xs)) (lastIndexFrom xs c i found)"
  by (induction xs arbitrary: i found) (auto simp: algebra_simps)

lemma LastIndex_separator:
  assumes "c \<notin> set ds"
  shows "LastIndex (docID @ c # ds) c = int (length docID)"
  unfolding LastIndex_def
  by (simp add: lastIndexFrom_append lastIndexFrom_absent[OF assms])

text \<open>
  Claim C4. For every document ID (a byte string, with or without underscores) and every
  segment index \<open>i \<ge> 0\<close> of Go's \<^verbatim>\<open>int\<close>, parsing the composite identifier
  \<^verbatim>\<open><docID>_<i>\<close> at its last underscore gives back the pair \<open>(docID, i)\<close>.
\<close>

theorem parse_compositeID:
  assumes "0 \<le> i" "i \<le> MaxInt"
  shows "parseIDAndSegmentIndex (compositeID docID i) = Inr (docID, i)"
proof -
  have fmt: "formatInt i = digits (nat i)" using assms by (simp add: formatInt_def)
  have "\<forall>ch \<in> set (digits (nat i)). isDigit ch"
    using digits_all_digits[of "nat i"] by (simp add: list_all_iff)
  then have sep: "CHR ''_'' \<notin> set (digits (nat i))"
    using isDigit_not_separator by blast
  have idx: "LastIndex (docID @ CHR ''_'' # digits (nat i)) CHR ''_'' = int (length docID)"
    by (rule LastIndex_separator[OF sep])
  have atoi: "Atoi (digits (nat i)) = Inr i"
    using Atoi_digits[of "nat i"] assms by simp
  have nxt: "nat (int (length docID) + 1) = Suc (length docID)" by simp
  show ?thesis
    unfolding parseIDAndSegmentIndex_def compositeID_def fmt
    by (simp add: idx atoi Let_def nxt del: of_nat_Suc)
qed

theorem parse_compositeID_witness:
  "(0::int) \<le> 12 \<and> (12::int) \<le> MaxInt
   \<and> compositeID ''my_doc'' 12 = ''my_doc_12''
   \<and> parseIDAndSegmentIndex (compositeID ''my_doc'' 12) = Inr (''my_doc'', 12)"
proof -
  have a: "(0::int) \<le> 12" and b: "(12::int) \<le> MaxInt" by (simp_all add: MaxInt_def)
  have c: "compositeID ''my_doc'' 12 = ''my_doc_12''"
    by (simp add: compositeID_def formatInt_def digits.simps digitChar_def)
  show ?thesis using a b c parse_compositeID[OF a b, of "''my_doc''"] by simp
qed

section \<open>The similarity ranker (claims C7 and C2)\<close>

lemma sorts_by_sortByDesc: "sorts_by (\<lambda>a b. key a > key b) (sortByDesc key)"
proof -
  have "sorted_wrt (\<lambda>a b. \<not> key b > key a) (sortByDesc key xs)" for xs
  proof -
    have "sorted (map (\<lambda>x. - key x) (sort_key (\<lambda>x. - key x) xs))" by (rule sorted_sort_key)
    then show ?thesis
      unfolding sortByDesc_def by (simp add: sorted_wrt_map not_less)
  qed
  then show ?thesis by (simp add: sorts_by_def sortByDesc_def)
qed

lemma collect_all_Inr:
  "\<forall>r \<in> set rs. \<not> isl r \<Longrightarrow> collect rs = Inr (map projr rs)"
proof (induction rs)
  case Nil
  then show ?case by simp
next
  case (Cons r rs)
  then show ?case by (cases r) auto
qed

lemma collect_Inr_length: "collect rs = Inr xs \<Longrightarrow> length xs = length rs"
proof (induction rs arbitrary: xs)
  case Nil
  then show ?case by simp
next
  case (Cons r rs)
  then show ?case by (cases r) (auto split: sum.splits)
qed



lemma sorts_by_length: "sorts_by lt srt \<Longrightarrow> length (srt xs) = length xs"
  unfolding sorts_by_def by (metis mset_eq_length)

text \<open>
  \<open>getTopNSimilarEmbeddings\<close> is \<open>getTopNSimilarEmbeddingsWith\<close> at the exact
  \<open>normalizeVector\<close> and \<open>dotProduct\<close>.
\<close>

lemma getTopNSimilarEmbeddings_exact:
  "(getTopNSimilarEmbeddings srt q embeddings ids topN :: 'e error + Similarity list)
     = getTopNSimilarEmbeddingsWith normalizeVector dotProduct srt q embeddings ids topN"
proof -
  have "(scoreSlot nq ids i e :: 'e error + Similarity) = scoreSlotWith dotProduct nq ids i e"
    for nq i e
    by (simp add: scoreSlot_def scoreSlotWith_def)
  then have "(scoreSlots nq es ids :: 'e error + Similarity list)
               = scoreSlotsWith dotProduct nq es ids" for nq es
    by (simp add: scoreSlots_def scoreSlotsWith_def)
  then show ?thesis
    by (simp add: getTopNSimilarEmbeddings_def getTopNSimilarEmbeddingsWith_def
        cong: if_cong list.case_cong sum.case_cong)
qed

lemma scoreSlotWith_no_panic:
  "i < length ids \<Longrightarrow> \<not> isl (scoreSlotWith dotF nq ids i e)"
  by (simp add: scoreSlotWith_def split: sum.splits)

lemma scoreSlotsWith_total:
  assumes "length embeddings \<le> length ids"
  shows "\<exists>sims. scoreSlotsWith dotF nq embeddings ids = Inr sims
           \<and> length sims = length embeddings"
proof -
  let ?rs = "map (\<lambda>(i, embedding). scoreSlotWith dotF nq ids i embedding)
               (enumerate 0 embeddings)"
  have "\<forall>r \<in> set ?rs. \<not> isl r"
    using assms by (auto simp: in_set_enumerate_eq intro!: scoreSlotWith_no_panic)
  then have "collect ?rs = Inr (map projr ?rs)" by (rule collect_all_Inr)
  then show ?thesis by (simp add: scoreSlotsWith_def)
qed

lemma scoreSlotsWith_candidates:
  assumes len: "length ids = length embeddings"
    and ok: "\<forall>e \<in> set embeddings. \<not> isl (dotF nq e)"
  shows "scoreSlotsWith dotF nq embeddings ids = Inr (candidateScores dotF nq ids embeddings)"
proof -
  let ?rs = "map (\<lambda>(i, embedding). scoreSlotWith dotF nq ids i embedding)
               (enumerate 0 embeddings)"
  have "\<forall>r \<in> set ?rs. \<not> isl r"
    using len by (auto simp: in_set_enumerate_eq intro!: scoreSlotWith_no_panic)
  then have c: "collect ?rs = Inr (map projr ?rs)" by (rule collect_all_Inr)
  have "map projr ?rs = candidateScores dotF nq ids embeddings"
  proof (rule nth_equalityI)
    show "length (map projr ?rs) = length (candidateScores dotF nq ids embeddings)"
      using len by (simp add: candidateScores_def)
  next
    fix i
    assume "i < length (map projr ?rs)"
    then have i: "i < length embeddings" by simp
    then have "\<not> isl (dotF nq (embeddings ! i))" using ok by simp
    then obtain s where s: "dotF nq (embeddings ! i) = Inr s"
      by (cases "dotF nq (embeddings ! i)") auto
    show "map projr ?rs ! i = candidateScores dotF nq ids embeddings ! i"
      using i len s by (simp add: candidateScores_def nth_enumerate_eq scoreSlotWith_def)
  qed
  then show ?thesis using c by (simp add: scoreSlotsWith_def)
qed

text \<open>
  Claim C7, as amended. For a candidate list (as many identifiers as embeddings) and
  whatever the arithmetic of \<^verbatim>\<open>normalizeVector\<close> and \<^verbatim>\<open>dotProduct\<close> is,
  \<open>getTopNSimilarEmbeddings\<close> returns an error when the list is empty, when the length of
  the query vector differs from the length of the first candidate, and also when
  \<^verbatim>\<open>normalizeVector\<close> fails on the query vector, with that error; otherwise, for \<open>N \<ge> 0\<close>,
  it returns at most \<open>min(N, number of candidates)\<close> entries sorted by descending score.
  When the dot product succeeds for every candidate, the entries are the first \<open>N\<close> of the
  candidates' (id, score) pairs in their sorted order.
\<close>

theorem getTopNSimilarEmbeddings_contract:
  fixes normalizeF :: "vec \<Rightarrow> 'e error + vec"
  assumes srt: "sorts_by (\<lambda>a b. Score a > Score b) srt"
    and ids: "length ids = length embeddings"
  shows "(embeddings = [] \<longrightarrow>
            getTopNSimilarEmbeddingsWith normalizeF dotF srt q embeddings ids topN
              = Inl NoEmbeddingsProvided)
       \<and> (embeddings \<noteq> [] \<and> length q \<noteq> length (hd embeddings) \<longrightarrow>
            getTopNSimilarEmbeddingsWith normalizeF dotF srt q embeddings ids topN
              = Inl QueryLengthMismatch)
       \<and> (\<forall>err. embeddings \<noteq> [] \<and> length q = length (hd embeddings) \<and> normalizeF q = Inl err \<longrightarrow>
            getTopNSimilarEmbeddingsWith normalizeF dotF srt q embeddings ids topN = Inl err)
       \<and> (\<forall>nq. embeddings \<noteq> [] \<and> length q = length (hd embeddings) \<and> normalizeF q = Inr nq
            \<and> 0 \<le> topN \<longrightarrow>
            (\<exists>sims. getTopNSimilarEmbeddingsWith normalizeF dotF srt q embeddings ids topN = Inr sims
                  \<and> length sims \<le> min (nat topN) (length embeddings)
                  \<and> sorted_wrt (\<lambda>a b. Score a \<ge> Score b) sims
                  \<and> ((\<forall>e \<in> set embeddings. \<not> isl (dotF nq e)) \<longrightarrow>
                       sims = take (nat topN) (srt (candidateScores dotF nq ids embeddings)))))"
proof (intro conjI impI allI)
  assume "embeddings = []"
  then show "getTopNSimilarEmbeddingsWith normalizeF dotF srt q embeddings ids topN
               = Inl NoEmbeddingsProvided"
    by (simp add: getTopNSimilarEmbeddingsWith_def)
next
  assume "embeddings \<noteq> [] \<and> length q \<noteq> length (hd embeddings)"
  then show "getTopNSimilarEmbeddingsWith normalizeF dotF srt q embeddings ids topN
               = Inl QueryLengthMismatch"
    by (cases embeddings) (simp_all add: getTopNSimilarEmbeddingsWith_def)
next
  fix err
  assume "embeddings \<noteq> [] \<and> length q = length (hd embeddings) \<and> normalizeF q = Inl err"
  then show "getTopNSimilarEmbeddingsWith normalizeF dotF srt q embeddings ids topN = Inl err"
    by (cases embeddings) (simp_all add: getTopNSimilarEmbeddingsWith_def)
next
  fix nq
  assume a: "embeddings \<noteq> [] \<and> length q = length (hd embeddings) \<and> normalizeF q = Inr nq
            \<and> 0 \<le> topN"
  obtain slots where slots: "scoreSlotsWith dotF nq embeddings ids = Inr slots"
    and len: "length slots = length embeddings"
    using scoreSlotsWith_total[of embeddings ids dotF nq] ids by auto
  let ?n = "if topN > int (length (srt slots)) then int (length (srt slots)) else topN"
  have res: "getTopNSimilarEmbeddingsWith normalizeF dotF srt q embeddings ids topN
               = Inr (take (nat ?n) (srt slots))"
    using a slots by (cases embeddings) (simp_all add: getTopNSimilarEmbeddingsWith_def Let_def)
  have l: "length (srt slots) = length embeddings"
    using sorts_by_length[OF srt] len by simp
  have tk: "take (nat ?n) (srt slots) = take (nat topN) (srt slots)"
    using a l by auto
  have "sorted_wrt (\<lambda>a b. Score a \<ge> Score b) (srt slots)"
    using srt by (simp add: sorts_by_def not_less)
  then have s: "sorted_wrt (\<lambda>a b. Score a \<ge> Score b) (take (nat topN) (srt slots))"
    by (rule sorted_wrt_take)
  have n: "length (take (nat topN) (srt slots)) \<le> min (nat topN) (length embeddings)"
    using l by simp
  have c: "take (nat topN) (srt slots) = take (nat topN) (srt (candidateScores dotF nq ids embeddings))"
    if "\<forall>e \<in> set embeddings. \<not> isl (dotF nq e)"
    using scoreSlotsWith_candidates[of ids embeddings dotF nq] ids that slots by simp
  show "\<exists>sims. getTopNSimilarEmbeddingsWith normalizeF dotF srt q embeddings ids topN = Inr sims
                  \<and> length sims \<le> min (nat topN) (length embeddings)
                  \<and> sorted_wrt (\<lambda>a b. Score a \<ge> Score b) sims
                  \<and> ((\<forall>e \<in> set embeddings. \<not> isl (dotF nq e)) \<longrightarrow>
                       sims = take (nat topN) (srt (candidateScores dotF nq ids embeddings)))"
    using res tk s n c by (intro exI[of _ "take (nat topN) (srt slots)"]) simp
qed

text \<open>
  The witness: the query \<open>[2, 0]\<close>, normalised to \<open>[1, 0]\<close>, against three candidates with
  the scores 0.5, 1 and 0, and \<open>N = 2\<close>. All the numbers are exact in \<^verbatim>\<open>float64\<close>.
\<close>

theorem getTopNSimilarEmbeddings_contract_witness:
  "(getTopNSimilarEmbeddingsWith normalizeVector dotProduct (sortByDesc Score) [2, 0]
       [[0.5, 0.5], [1, 0], [0, 1]] [''a'', ''b'', ''c''] 2 :: unit error + Similarity list)
     = Inr [\<lparr>SimID = ''b'', Score = 1\<rparr>, \<lparr>SimID = ''a'', Score = 0.5\<rparr>]
   \<and> candidateScores (dotProduct :: vec \<Rightarrow> vec \<Rightarrow> unit error + real) [1, 0] [''a'', ''b'', ''c'']
         [[0.5, 0.5], [1, 0], [0, 1]]
       = [\<lparr>SimID = ''a'', Score = 0.5\<rparr>, \<lparr>SimID = ''b'', Score = 1\<rparr>, \<lparr>SimID = ''c'', Score = 0\<rparr>]
   \<and> (\<exists>sims. (getTopNSimilarEmbeddingsWith normalizeVector dotProduct (sortByDesc Score) [2, 0]
                 [[0.5, 0.5], [1, 0], [0, 1]] [''a'', ''b'', ''c''] 2
                 :: unit error + Similarity list) = Inr sims
          \<and> length sims \<le> min (nat 2) (length [[0.5, 0.5], [1, 0], [0, 1 :: real]])
          \<and> sorted_wrt (\<lambda>a b. Score a \<ge> Score b) sims
          \<and> sims = take (nat 2) (sortByDesc Score
                (candidateScores (dotProduct :: vec \<Rightarrow> vec \<Rightarrow> unit error + real) [1, 0]
                   [''a'', ''b'', ''c''] [[0.5, 0.5], [1, 0], [0, 1]])))"
proof -
  have nq: "(normalizeVector [2, 0] :: unit error + vec) = Inr [1, 0]"
    by (simp add: normalizeVector_def)
  have cs: "candidateScores (dotProduct :: vec \<Rightarrow> vec \<Rightarrow> unit error + real) [1, 0]
         [''a'', ''b'', ''c''] [[0.5, 0.5], [1, 0], [0, 1]]
       = [\<lparr>SimID = ''a'', Score = 0.5\<rparr>, \<lparr>SimID = ''b'', Score = 1\<rparr>, \<lparr>SimID = ''c'', Score = 0\<rparr>]"
    by (simp add: candidateScores_def dotProduct_def)
  have val: "(getTopNSimilarEmbeddingsWith normalizeVector dotProduct (sortByDesc Score) [2, 0]
       [[0.5, 0.5], [1, 0], [0, 1]] [''a'', ''b'', ''c''] 2 :: unit error + Similarity list)
     = Inr [\<lparr>SimID = ''b'', Score = 1\<rparr>, \<lparr>SimID = ''a'', Score = 0.5\<rparr>]"
    by (simp add: getTopNSimilarEmbeddingsWith_def nq scoreSlotsWith_def scoreSlotWith_def
        dotProduct_def enumerate_eq_zip sortByDesc_def Let_def)
  have ids: "length [''a'', ''b'', ''c''] = length [[0.5, 0.5], [1, 0], [0, 1 :: real]]" by simp
  have ok: "\<forall>e \<in> set [[0.5, 0.5], [1, 0], [0, 1 :: real]].
              \<not> isl (dotProduct [1, 0] e :: unit error + real)"
    by (simp add: dotProduct_def)
  from getTopNSimilarEmbeddings_contract[OF sorts_by_sortByDesc ids,
        of "normalizeVector :: vec \<Rightarrow> unit error + vec" dotProduct "[2, 0]" 2]
  show ?thesis using val cs nq ok by auto
qed

text \<open>
  The claim as stated fails: with one candidate and a query of the same length, the call
  still returns an error when the query is the zero vector, and panics (at
  \<^verbatim>\<open>similarities[:topN]\<close>) when \<open>N\<close> is negative.
\<close>

theorem getTopNSimilarEmbeddings_contract_counterexample:
  "[[0.5, 0.5 :: real]] \<noteq> [] \<and> length [0, 0 :: real] = length (hd [[0.5, 0.5 :: real]])
   \<and> (getTopNSimilarEmbeddings (sortByDesc Score) [0, 0] [[0.5, 0.5]] [''doc1''] 1
        :: unit error + Similarity list) = Inl ZeroVector
   \<and> (getTopNSimilarEmbeddings (sortByDesc Score) [1, 0] [[0.5, 0.5]] [''doc1''] (- 1)
        :: unit error + Similarity list) = Inl Panic"
proof -
  have nq: "(normalizeVector [1, 0] :: unit error + vec) = Inr [1, 0]"
    by (simp add: normalizeVector_def)
  show ?thesis
    by (simp add: getTopNSimilarEmbeddings_def nq scoreSlots_def scoreSlot_def dotProduct_def
        enumerate_eq_zip sortByDesc_def Let_def)
      (simp add: normalizeVector_def)
qed

text \<open>
  Claim C2 says that a candidate whose dot product fails is left out of the returned list,
  which then holds only pairs computed for some candidate. The code at the query \<open>[1, 0]\<close>
  with the candidates \<open>a = [-1, 0]\<close> and \<open>b = [1, 0, 0]\<close> and \<open>N = 1\<close>: the slot of \<open>b\<close> keeps
  the zero value, is sorted with the others, and is the one entry returned, before \<open>a\<close>
  (whose score is \<open>-1\<close>).
\<close>

theorem getTopNSimilarEmbeddings_placeholder:
  "(getTopNSimilarEmbeddings (sortByDesc Score) [1, 0] [[- 1, 0], [1, 0, 0]] [''a'', ''b''] 1
      :: unit error + Similarity list)
     = Inr [\<lparr>SimID = [], Score = 0\<rparr>]"
proof -
  have nq: "(normalizeVector [1, 0] :: unit error + vec) = Inr [1, 0]"
    by (simp add: normalizeVector_def)
  show ?thesis
    by (simp add: getTopNSimilarEmbeddings_def nq scoreSlots_def scoreSlot_def dotProduct_def
        enumerate_eq_zip sortByDesc_def Let_def)
qed

section \<open>The document store (claims C8 and C10)\<close>

lemma segments_extended_refl: "segments_extended mem mem doc"
  unfolding segments_extended_def
proof (intro allI conjI impI)
  fix a d
  assume "docHeap mem a = Some d"
  moreover have "d = d\<lparr>Segments := Segments d @ []\<rparr>" by simp
  ultimately show "\<exists>ps. docHeap mem a = Some (d\<lparr>Segments := Segments d @ ps\<rparr>)"
    by metis
qed simp_all

lemma segments_extended_trans:
  assumes "segments_extended mem1 mem2 doc" "segments_extended mem2 mem3 doc"
  shows "segments_extended mem1 mem3 doc"
  unfolding segments_extended_def
proof (intro allI conjI impI)
  fix a
  assume "Ptr a \<noteq> doc"
  then show "docHeap mem3 a = docHeap mem1 a"
    using assms unfolding segments_extended_def by simp
next
  fix a
  assume "docHeap mem1 a = None"
  then have "docHeap mem2 a = None"
    using assms(1) unfolding segments_extended_def by blast
  then show "docHeap mem3 a = None"
    using assms(2) unfolding segments_extended_def by blast
next
  fix a d
  assume "docHeap mem1 a = Some d"
  then obtain ps where ps: "docHeap mem2 a = Some (d\<lparr>Segments := Segments d @ ps\<rparr>)"
    using assms(1) unfolding segments_extended_def by blast
  obtain qs where
    "docHeap mem3 a = Some ((d\<lparr>Segments := Segments d @ ps\<rparr>)
        \<lparr>Segments := Segments (d\<lparr>Segments := Segments d @ ps\<rparr>) @ qs\<rparr>)"
    using assms(2) ps unfolding segments_extended_def by blast
  then have "docHeap mem3 a = Some (d\<lparr>Segments := Segments d @ (ps @ qs)\<rparr>)" by simp
  then show "\<exists>ps. docHeap mem3 a = Some (d\<lparr>Segments := Segments d @ ps\<rparr>)" by blast
qed

lemma segments_extended_step:
  "segments_extended mem (appendSegment (snd (newSegment mem s)) doc (fst (newSegment mem s))) doc"
proof (cases doc)
  case Nil
  then show ?thesis
    using segments_extended_refl[of mem doc]
    by (simp add: segments_extended_def appendSegment_def newSegment_def)
next
  case (Ptr b)
  show ?thesis
  proof (cases "docHeap mem b")
    case None
    then show ?thesis
      using Ptr segments_extended_refl[of mem doc]
      by (simp add: segments_extended_def appendSegment_def newSegment_def)
  next
    case (Some d0)
    have "d0 = d0\<lparr>Segments := Segments d0 @ []\<rparr>" by simp
    then show ?thesis
      using Ptr Some segments_extended_refl[of mem doc]
      unfolding segments_extended_def appendSegment_def newSegment_def
      by (simp add: fun_upd_def) blast
  qed
qed

lemma addSegments_frame:
  fixes r :: "'e error option"
  shows "addSegments mem doc segments embeddings i = (r, mem') \<Longrightarrow> segments_extended mem mem' doc"
proof (induction embeddings arbitrary: mem i)
  case Nil
  then show ?case by (simp add: segments_extended_refl)
next
  case (Cons embedding rest)
  show ?case
  proof (cases "normalizeVector embedding :: 'e error + vec")
    case (Inl err)
    then show ?thesis using Cons.prems by (simp add: segments_extended_refl)
  next
    case (Inr nrm)
    show ?thesis
    proof (cases "i < length segments")
      case False
      then show ?thesis using Cons.prems Inr by (simp add: segments_extended_refl)
    next
      case True
      let ?s = "\<lparr>Text = segments ! i, Embedding = nrm\<rparr>"
      let ?mem1 = "appendSegment (snd (newSegment mem ?s)) doc (fst (newSegment mem ?s))"
      have "addSegments ?mem1 doc segments rest (Suc i) = (r, mem')"
        using Cons.prems Inr True by (simp add: case_prod_beta)
      then have "segments_extended ?mem1 mem' doc" by (rule Cons.IH)
      then show ?thesis using segments_extended_step segments_extended_trans by blast
    qed
  qed
qed

lemma createSegments_frame:
  "createSegments mem doc segments embeddings i = (r, mem') \<Longrightarrow> segments_extended mem mem' doc"
proof (induction segments arbitrary: mem i)
  case Nil
  then show ?case by (simp add: segments_extended_refl)
next
  case (Cons segmentText rest)
  show ?case
  proof (cases "i < length embeddings")
    case False
    then show ?thesis using Cons.prems by (simp add: segments_extended_refl)
  next
    case True
    let ?s = "\<lparr>Text = segmentText, Embedding = embeddings ! i\<rparr>"
    let ?mem1 = "appendSegment (snd (newSegment mem ?s)) doc (fst (newSegment mem ?s))"
    have "createSegments ?mem1 doc rest embeddings (Suc i) = (r, mem')"
      using Cons.prems True by (simp add: case_prod_beta)
    then have "segments_extended ?mem1 mem' doc" by (rule Cons.IH)
    then show ?thesis using segments_extended_step segments_extended_trans by blast
  qed
qed

lemma store_inv_extended:
  assumes "store_inv c mem" "segments_extended mem mem' doc"
  shows "store_inv c mem'"
  unfolding store_inv_def
proof (intro allI impI)
  fix k p
  assume "documents c k = Some p"
  then obtain a d where d: "p = Ptr a" "docHeap mem a = Some d" "ID d = k" "ID d \<noteq> []" "Content d \<noteq> []"
    using assms(1) unfolding store_inv_def by blast
  then obtain ps where "docHeap mem' a = Some (d\<lparr>Segments := Segments d @ ps\<rparr>)"
    using assms(2) unfolding segments_extended_def by blast
  then show "\<exists>a d. p = Ptr a \<and> docHeap mem' a = Some d \<and> ID d = k \<and> ID d \<noteq> [] \<and> Content d \<noteq> []"
    using d by auto
qed


lemma AddDocument_outcomes:
  fixes r :: "'e error option" and mem :: "'m memory"
  assumes "AddDocument c mem doc = Some (r, c', mem')"
  shows "(r \<noteq> None \<and> c' = c \<and> mem' = mem)
       \<or> (\<exists>a d. doc = Ptr a \<and> docHeap mem a = Some d \<and> ID d \<noteq> [] \<and> documents c (ID d) = None
                \<and> Content d \<noteq> [] \<and> segments_extended mem mem' doc
                \<and> (r \<noteq> None \<longrightarrow> c' = c)
                \<and> (r = None \<longrightarrow> c' = c\<lparr>documents := (documents c)(ID d \<mapsto> doc)\<rparr>))"
proof (cases "derefDoc mem doc :: 'e error + 'm Document")
  case (Inl err)
  then show ?thesis using assms by (auto simp: AddDocument_def)
next
  case (Inr d)
  then obtain a where a: "doc = Ptr a" "docHeap mem a = Some d"
    by (auto simp: derefDoc_def split: ptr.splits option.splits)
  show ?thesis
  proof (cases "ID d = [] \<or> documents c (ID d) \<noteq> None \<or> Content d = []")
    case True
    then show ?thesis using assms Inr by (auto simp: AddDocument_def split: if_splits)
  next
    case False
    then have ok: "ID d \<noteq> []" "documents c (ID d) = None" "Content d \<noteq> []" by auto
    show ?thesis
    proof (cases "splitText c (Content d) :: ('e error + runes list) option")
      case None
      then show ?thesis using assms Inr ok by (auto simp: AddDocument_def)
    next
      case (Some sp)
      show ?thesis
      proof (cases sp)
        case (Inl err)
        then show ?thesis using assms Inr ok Some by (auto simp: AddDocument_def)
      next
        case segs: (Inr segments)
        show ?thesis
        proof (cases "embeddingFunc c segments (embeddingDocumentType c)")
          case (Inl err)
          then show ?thesis using assms Inr ok Some segs by (auto simp: AddDocument_def)
        next
          case embs: (Inr embeddings)
          obtain r0 :: "'e error option" and mem0
            where add: "addSegments mem doc segments embeddings 0 = (r0, mem0)"
            by (cases "addSegments mem doc segments embeddings 0 :: 'e error option \<times> 'm memory") auto
          have fr: "segments_extended mem mem0 doc" using add by (rule addSegments_frame)
          show ?thesis
          proof (cases r0)
            case None
            then have "r = None" "mem' = mem0" "c' = c\<lparr>documents := (documents c)(ID d \<mapsto> doc)\<rparr>"
              using assms Inr ok \<open>splitText c (Content d) = Some sp\<close> segs embs add
              by (auto simp: AddDocument_def)
            then show ?thesis using a ok fr by auto
          next
            case (Some err)
            then have "r = Some err" "mem' = mem0" "c' = c"
              using assms Inr ok \<open>splitText c (Content d) = Some sp\<close> segs embs add
              by (auto simp: AddDocument_def)
            then show ?thesis using a ok fr by auto
          qed
        qed
      qed
    qed
  qed
qed

text \<open>
  Claim C8. Whenever \<open>AddDocument\<close> returns an error (or panics), the collection is the one
  before the call: the document map is unchanged, no document is inserted and \<open>Length\<close>
  is the same. Moreover, in a store that satisfies \<open>store_inv\<close>, the stored documents
  themselves are untouched (a failing call may have appended segments to the document it
  was given, which is not in the map).
\<close>

theorem AddDocument_error_leaves_store:
  fixes err :: "'e error"
  assumes "AddDocument c mem doc = Some (Some err, c', mem')"
  shows "c' = c \<and> documents c' = documents c \<and> Length c' = Length c
       \<and> (store_inv c mem \<longrightarrow>
            (\<forall>k a. documents c k = Some (Ptr a) \<longrightarrow> docHeap mem' a = docHeap mem a))"
proof -
  from AddDocument_outcomes[OF assms]
  consider (unchanged) "c' = c" "mem' = mem"
    | (partial) a d where "doc = Ptr a" "docHeap mem a = Some d" "documents c (ID d) = None"
        "segments_extended mem mem' doc" "c' = c"
    by auto
  then show ?thesis
  proof cases
    case unchanged
    then show ?thesis by simp
  next
    case partial
    have "docHeap mem' b = docHeap mem b"
      if inv: "store_inv c mem" and k: "documents c k = Some (Ptr b)" for k b
    proof -
      obtain d' where d': "docHeap mem b = Some d'" "ID d' = k"
        using inv k unfolding store_inv_def by blast
      have "b \<noteq> a" using partial(2,3) d' k by auto
      then show ?thesis using partial(1,4) unfolding segments_extended_def by simp
    qed
    then show ?thesis using partial(5) by blast
  qed
qed


lemma embedDocument_frame:
  fixes r :: "'e error option" and mem :: "'m memory"
  assumes "embedDocument c mem doc = Some (r, mem')"
  shows "segments_extended mem mem' doc"
proof (cases "derefDoc mem doc :: 'e error + 'm Document")
  case (Inl err)
  then show ?thesis using assms by (auto simp: embedDocument_def segments_extended_refl)
next
  case (Inr d)
  show ?thesis
  proof (cases "Content d = []")
    case True
    then show ?thesis using assms Inr by (auto simp: embedDocument_def segments_extended_refl)
  next
    case False
    show ?thesis
    proof (cases "splitText c (Content d) :: ('e error + runes list) option")
      case None
      then show ?thesis using assms Inr False by (simp add: embedDocument_def)
    next
      case (Some sp)
      show ?thesis
      proof (cases sp)
        case (Inl err)
        then show ?thesis
          using assms Inr False Some by (auto simp: embedDocument_def segments_extended_refl)
      next
        case segs: (Inr segments)
        show ?thesis
        proof (cases "embeddingFunc c segments (embeddingDocumentType c)")
          case (Inl err)
          then show ?thesis
            using assms Inr False Some segs
            by (auto simp: embedDocument_def segments_extended_refl)
        next
          case embs: (Inr embeddings)
          show ?thesis
          proof (cases "collect (map normalizeVector embeddings) :: 'e error + vec list")
            case (Inl err)
            then show ?thesis
              using assms Inr False Some segs embs
              by (auto simp: embedDocument_def segments_extended_refl)
          next
            case nrm: (Inr normalized)
            have "createSegments mem doc segments normalized 0 = (r, mem')"
              using assms Inr False Some segs embs nrm by (simp add: embedDocument_def)
            then show ?thesis by (rule createSegments_frame)
          qed
        qed
      qed
    qed
  qed
qed

lemma EmbedDocuments_loop_inv:
  fixes r :: "'e error option" and mem :: "'m memory"
  assumes "EmbedDocuments_loop c mem keys = Some (r, mem')" "store_inv c mem"
  shows "store_inv c mem'"
  using assms
proof (induction keys arbitrary: mem)
  case Nil
  then show ?case by simp
next
  case (Cons docID rest)
  show ?case
  proof (cases "documents c docID")
    case None
    then show ?thesis using Cons by simp
  next
    case (Some doc)
    show ?thesis
    proof (cases "embedDocument c mem doc :: ('e error option \<times> 'm memory) option")
      case None
      then show ?thesis using Cons.prems Some by simp
    next
      case step: (Some out)
      obtain r1 :: "'e error option" and mem1 where out: "out = (r1, mem1)" by (cases out)
      have inv1: "store_inv c mem1"
        using embedDocument_frame step out store_inv_extended Cons.prems(2) by blast
      show ?thesis
      proof (cases r1)
        case None
        then have "EmbedDocuments_loop c mem1 rest = Some (r, mem')"
          using Cons.prems(1) Some step out by simp
        then show ?thesis using inv1 by (rule Cons.IH)
      next
        case (Some err)
        then have "mem' = mem1" using Cons.prems(1) \<open>documents c docID = Some doc\<close> step out by simp
        then show ?thesis using inv1 by simp
      qed
    qed
  qed
qed

lemma AddDocument_inv:
  fixes r :: "'e error option" and mem :: "'m memory"
  assumes "AddDocument c mem doc = Some (r, c', mem')" "store_inv c mem"
  shows "store_inv c' mem'"
proof -
  from AddDocument_outcomes[OF assms(1)]
  consider (unchanged) "c' = c" "mem' = mem"
    | (added) a d where "doc = Ptr a" "docHeap mem a = Some d" "ID d \<noteq> []" "Content d \<noteq> []"
        "segments_extended mem mem' doc" "c' = c \<or> c' = c\<lparr>documents := (documents c)(ID d \<mapsto> doc)\<rparr>"
    by blast
  then show ?thesis
  proof cases
    case unchanged
    then show ?thesis using assms(2) by simp
  next
    case added
    have inv': "store_inv c mem'" using assms(2) added(5) by (rule store_inv_extended)
    obtain ps where ps: "docHeap mem' a = Some (d\<lparr>Segments := Segments d @ ps\<rparr>)"
      using added(2,5) unfolding segments_extended_def by blast
    have "store_inv (c\<lparr>documents := (documents c)(ID d \<mapsto> doc)\<rparr>) mem'"
      using inv' ps added(1,3,4) unfolding store_inv_def by auto
    then show ?thesis using added(6) inv' by auto
  qed
qed

lemma UpdateDocument_inv:
  fixes r :: "'e error option" and mem :: "'m memory"
  assumes "UpdateDocument c mem doc = (r, c')" "store_inv c mem"
  shows "store_inv c' mem"
proof (cases "derefDoc mem doc :: 'e error + 'm Document")
  case (Inl err)
  then show ?thesis using assms by (auto simp: UpdateDocument_def)
next
  case (Inr d)
  then obtain a where a: "doc = Ptr a" "docHeap mem a = Some d"
    by (auto simp: derefDoc_def split: ptr.splits option.splits)
  show ?thesis
  proof (cases "ID d = [] \<or> documents c (ID d) = None \<or> Content d = []")
    case True
    then show ?thesis using assms Inr by (auto simp: UpdateDocument_def split: if_splits)
  next
    case False
    then have "c' = c\<lparr>documents := (documents c)(ID d \<mapsto> doc)\<rparr>"
      using assms(1) Inr by (auto simp: UpdateDocument_def)
    then show ?thesis using assms(2) a False unfolding store_inv_def by auto
  qed
qed

lemma DeleteDocument_inv:
  assumes "DeleteDocument c id0 = (r, c')" "store_inv c mem"
  shows "store_inv c' mem"
  using assms by (auto simp: DeleteDocument_def store_inv_def split: if_splits)

lemma NewCollection_inv:
  assumes "NewCollection name dt qt chunkSize chunkOverlap f = Inr c0"
  shows "documents c0 = Map.empty \<and> store_inv c0 mem0"
  using assms
  by (auto simp: NewCollection_def store_inv_def split: option.splits if_splits)

text \<open>
  Claim C10. \<open>store_inv\<close> holds for the collection returned by \<open>NewCollection\<close>, whose map
  is empty, and every operation keeps it: \<open>AddDocument\<close>, \<open>UpdateDocument\<close>,
  \<open>DeleteDocument\<close> and \<open>EmbedDocuments\<close>, whether they succeed or fail.
\<close>

theorem store_invariant:
  fixes c :: "'e Collection" and mem :: "'m memory"
  shows "(NewCollection name dt qt chunkSize chunkOverlap f = Inr c \<longrightarrow>
            documents c = Map.empty \<and> store_inv c mem)
       \<and> (store_inv c mem \<longrightarrow>
            (\<forall>r c' mem'. AddDocument c mem doc = Some (r, c', mem') \<longrightarrow> store_inv c' mem')
          \<and> (\<forall>r c'. UpdateDocument c mem doc = (r, c') \<longrightarrow> store_inv c' mem)
          \<and> (\<forall>r c'. DeleteDocument c id0 = (r, c') \<longrightarrow> store_inv c' mem)
          \<and> (\<forall>r mem'. EmbedDocuments keys c mem = Some (r, mem') \<longrightarrow> store_inv c mem'))"
proof (intro conjI impI allI)
  assume "NewCollection name dt qt chunkSize chunkOverlap f = Inr c"
  then show "documents c = Map.empty" "store_inv c mem"
    using NewCollection_inv by blast+
next
  fix r :: "'e error option" and c' mem'
  assume "store_inv c mem" "AddDocument c mem doc = Some (r, c', mem')"
  then show "store_inv c' mem'" using AddDocument_inv by blast
next
  fix r :: "'e error option" and c'
  assume "store_inv c mem" "UpdateDocument c mem doc = (r, c')"
  then show "store_inv c' mem" using UpdateDocument_inv by blast
next
  fix r :: "'e error option" and c'
  assume "store_inv c mem" "DeleteDocument c id0 = (r, c')"
  then show "store_inv c' mem" using DeleteDocument_inv by blast
next
  fix r :: "'e error option" and mem'
  assume "store_inv c mem" "EmbedDocuments keys c mem = Some (r, mem')"
  then show "store_inv c mem'"
    unfolding EmbedDocuments_def using EmbedDocuments_loop_inv by blast
qed


lemma testCollection_fields:
  "documents (testCollection gen chunkSize chunkOverlap docs) = docs"
  "embeddingFunc (testCollection gen chunkSize chunkOverlap docs) = gen"
  "embeddingDocumentType (testCollection gen chunkSize chunkOverlap docs) = ''docType''"
  "embeddingQueryType (testCollection gen chunkSize chunkOverlap docs) = ''queryType''"
  "ChunkSize (testCollection gen chunkSize chunkOverlap docs) = chunkSize"
  "ChunkOverlap (testCollection gen chunkSize chunkOverlap docs) = chunkOverlap"
  "(testCollection gen chunkSize chunkOverlap docs)\<lparr>documents := docs'\<rparr>
     = testCollection gen chunkSize chunkOverlap docs'"
  by (simp_all add: testCollection_def)

lemma splitText_test:
  "(splitText (testCollection gen 100 10 docs) [84, 101, 115, 116] :: (unit error + runes list) option)
     = Some (Inr [[84, 101, 115, 116]])"
  by (simp add: splitText_def testCollection_def splitText_loop.simps wrap64_def slice_def)

lemma normalizeVector_unit: "(normalizeVector [1, 0] :: unit error + vec) = Inr [1, 0]"
  by (simp add: normalizeVector_def)

lemma AddDocument_test:
  "AddDocument (testCollection unitGen 100 10 Map.empty)
      \<lparr>docHeap = [0 \<mapsto> testDocument ''1'' [84, 101, 115, 116] []], segHeap = []\<rparr> (Ptr 0)
     = Some (None, testCollection unitGen 100 10 [''1'' \<mapsto> Ptr 0],
         \<lparr>docHeap = [0 \<mapsto> testDocument ''1'' [84, 101, 115, 116] [Ptr 0]],
          segHeap = [\<lparr>Text = [84, 101, 115, 116], Embedding = [1, 0]\<rparr>]\<rparr>)"
proof -
  have d: "Content (testDocument ''1'' [84, 101, 115, 116] []) = [84, 101, 115, 116]"
    "ID (testDocument ''1'' [84, 101, 115, 116] []) = ''1''"
    by (simp_all add: testDocument_def)
  show ?thesis
    unfolding AddDocument_def
    by (simp add: derefDoc_def d splitText_test testCollection_fields unitGen_def
        normalizeVector_unit newSegment_def appendSegment_def)
      (simp add: testDocument_def)
qed

lemma EmbedDocuments_test:
  "EmbedDocuments [''1''] (testCollection unitGen 100 10 [''1'' \<mapsto> Ptr 0])
      \<lparr>docHeap = [0 \<mapsto> testDocument ''1'' [84, 101, 115, 116] [Ptr 0]],
       segHeap = [\<lparr>Text = [84, 101, 115, 116], Embedding = [1, 0]\<rparr>]\<rparr>
     = Some (None :: unit error option,
         \<lparr>docHeap = [0 \<mapsto> testDocument ''1'' [84, 101, 115, 116] [Ptr 0, Ptr 1]],
          segHeap = [\<lparr>Text = [84, 101, 115, 116], Embedding = [1, 0]\<rparr>,
                     \<lparr>Text = [84, 101, 115, 116], Embedding = [1, 0]\<rparr>]\<rparr>)"
proof -
  have d: "Content (testDocument ''1'' [84, 101, 115, 116] [Ptr 0]) = [84, 101, 115, 116]"
    by (simp add: testDocument_def)
  have e: "embedDocument (testCollection unitGen 100 10 [''1'' \<mapsto> Ptr 0])
      \<lparr>docHeap = [0 \<mapsto> testDocument ''1'' [84, 101, 115, 116] [Ptr 0]],
       segHeap = [\<lparr>Text = [84, 101, 115, 116], Embedding = [1, 0]\<rparr>]\<rparr> (Ptr 0)
     = Some (None :: unit error option,
         \<lparr>docHeap = [0 \<mapsto> testDocument ''1'' [84, 101, 115, 116] [Ptr 0, Ptr 1]],
          segHeap = [\<lparr>Text = [84, 101, 115, 116], Embedding = [1, 0]\<rparr>,
                     \<lparr>Text = [84, 101, 115, 116], Embedding = [1, 0]\<rparr>]\<rparr>)"
    unfolding embedDocument_def
    by (simp add: derefDoc_def d splitText_test testCollection_fields unitGen_def
        normalizeVector_unit newSegment_def appendSegment_def)
      (simp add: testDocument_def)
  show ?thesis
    unfolding EmbedDocuments_def
    by (simp add: e testCollection_fields)
qed


theorem store_invariant_witness:
  "NewCollection ''test'' ''docType'' ''queryType'' 100 10 (Some unitGen)
     = (Inr (testCollection unitGen 100 10 Map.empty) :: unit error + unit Collection)
   \<and> store_inv (testCollection unitGen 100 10 Map.empty)
         \<lparr>docHeap = [0 \<mapsto> testDocument ''1'' [84, 101, 115, 116] []], segHeap = []\<rparr>
   \<and> store_inv (testCollection unitGen 100 10 [''1'' \<mapsto> Ptr 0])
         \<lparr>docHeap = [0 \<mapsto> testDocument ''1'' [84, 101, 115, 116] [Ptr 0]],
          segHeap = [\<lparr>Text = [84, 101, 115, 116], Embedding = [1, 0]\<rparr>]\<rparr>
   \<and> store_inv (testCollection unitGen 100 10 [''1'' \<mapsto> Ptr 0])
         \<lparr>docHeap = [0 \<mapsto> testDocument ''1'' [84, 101, 115, 116] [Ptr 0, Ptr 1]],
          segHeap = [\<lparr>Text = [84, 101, 115, 116], Embedding = [1, 0]\<rparr>,
                     \<lparr>Text = [84, 101, 115, 116], Embedding = [1, 0]\<rparr>]\<rparr>"
proof -
  let ?c0 = "testCollection unitGen 100 10 Map.empty"
  let ?c1 = "testCollection unitGen 100 10 [''1'' \<mapsto> Ptr 0]"
  let ?mem0 = "\<lparr>docHeap = [0 \<mapsto> testDocument ''1'' [84, 101, 115, 116] []], segHeap = []\<rparr>"
  let ?mem1 = "\<lparr>docHeap = [0 \<mapsto> testDocument ''1'' [84, 101, 115, 116] [Ptr 0]],
          segHeap = [\<lparr>Text = [84, 101, 115, 116], Embedding = [1, 0]\<rparr>]\<rparr>"
  let ?mem2 = "\<lparr>docHeap = [0 \<mapsto> testDocument ''1'' [84, 101, 115, 116] [Ptr 0, Ptr 1]],
          segHeap = [\<lparr>Text = [84, 101, 115, 116], Embedding = [1, 0]\<rparr>,
                     \<lparr>Text = [84, 101, 115, 116], Embedding = [1, 0]\<rparr>]\<rparr>"
  have new: "NewCollection ''test'' ''docType'' ''queryType'' 100 10 (Some unitGen)
     = (Inr ?c0 :: unit error + unit Collection)"
    by (simp add: NewCollection_def testCollection_def)
  have inv0: "store_inv ?c0 ?mem0"
    using new store_invariant[where c = ?c0 and mem = ?mem0 and name = "''test''"
        and dt = "''docType''" and qt = "''queryType''" and chunkSize = 100 and chunkOverlap = 10
        and f = "Some unitGen"]
    by blast
  have inv1: "store_inv ?c1 ?mem1"
    using inv0 AddDocument_test store_invariant[where c = ?c0 and mem = ?mem0 and doc = "Ptr 0"]
    by blast
  have inv2: "store_inv ?c1 ?mem2"
    using inv1 EmbedDocuments_test
      store_invariant[where c = ?c1 and mem = ?mem1 and keys = "[''1'']"]
    by blast
  show ?thesis using new inv0 inv1 inv2 by blast
qed

lemma AddDocument_zero_second:
  "AddDocument (testCollection zeroSecondGen 2 0 [''2'' \<mapsto> Ptr 2])
      \<lparr>docHeap = [0 \<mapsto> testDocument ''1'' [84, 101, 115, 116] [],
                  2 \<mapsto> testDocument ''2'' [72, 105] []], segHeap = []\<rparr> (Ptr 0)
     = Some (Some ZeroVector, testCollection zeroSecondGen 2 0 [''2'' \<mapsto> Ptr 2],
         \<lparr>docHeap = [0 \<mapsto> testDocument ''1'' [84, 101, 115, 116] [Ptr 0],
                     2 \<mapsto> testDocument ''2'' [72, 105] []],
          segHeap = [\<lparr>Text = [84, 101], Embedding = [1, 0]\<rparr>]\<rparr>)"
proof -
  have d: "Content (testDocument ''1'' [84, 101, 115, 116] []) = [84, 101, 115, 116]"
    "ID (testDocument ''1'' [84, 101, 115, 116] []) = ''1''"
    by (simp_all add: testDocument_def)
  have sp: "(splitText (testCollection zeroSecondGen 2 0 [''2'' \<mapsto> Ptr 2]) [84, 101, 115, 116]
              :: (unit error + runes list) option)
     = Some (Inr [[84, 101], [115, 116]])"
    by (simp add: splitText_def testCollection_fields splitText_loop.simps wrap64_def slice_def)
  have z: "(normalizeVector [0, 0] :: unit error + vec) = Inl ZeroVector"
    by (simp add: normalizeVector_def)
  show ?thesis
    unfolding AddDocument_def
    by (simp add: derefDoc_def d sp testCollection_fields zeroSecondGen_def
        normalizeVector_unit z newSegment_def appendSegment_def)
      (auto simp: testDocument_def)
qed

theorem AddDocument_error_leaves_store_witness:
  "AddDocument (testCollection zeroSecondGen 2 0 [''2'' \<mapsto> Ptr 2])
      \<lparr>docHeap = [0 \<mapsto> testDocument ''1'' [84, 101, 115, 116] [],
                  2 \<mapsto> testDocument ''2'' [72, 105] []], segHeap = []\<rparr> (Ptr 0)
     = Some (Some ZeroVector, testCollection zeroSecondGen 2 0 [''2'' \<mapsto> Ptr 2],
         \<lparr>docHeap = [0 \<mapsto> testDocument ''1'' [84, 101, 115, 116] [Ptr 0],
                     2 \<mapsto> testDocument ''2'' [72, 105] []],
          segHeap = [\<lparr>Text = [84, 101], Embedding = [1, 0]\<rparr>]\<rparr>)
   \<and> Length (testCollection zeroSecondGen 2 0 [''2'' \<mapsto> Ptr 2]) = 1
   \<and> store_inv (testCollection zeroSecondGen 2 0 [''2'' \<mapsto> Ptr 2])
         \<lparr>docHeap = [0 \<mapsto> testDocument ''1'' [84, 101, 115, 116] [],
                     2 \<mapsto> testDocument ''2'' [72, 105] []], segHeap = []\<rparr>
   \<and> docHeap \<lparr>docHeap = [0 \<mapsto> testDocument ''1'' [84, 101, 115, 116] [Ptr 0],
                     2 \<mapsto> testDocument ''2'' [72, 105] []],
          segHeap = [\<lparr>Text = [84, 101], Embedding = [1, 0]\<rparr>]\<rparr> 2
       = Some (testDocument ''2'' [72, 105] [])"
proof -
  let ?c = "testCollection zeroSecondGen 2 0 [''2'' \<mapsto> Ptr 2]"
  let ?mem = "\<lparr>docHeap = [0 \<mapsto> testDocument ''1'' [84, 101, 115, 116] [],
                  2 \<mapsto> testDocument ''2'' [72, 105] []], segHeap = []\<rparr>"
  have inv: "store_inv ?c ?mem"
    by (simp add: store_inv_def testCollection_fields testDocument_def)
  have len: "Length ?c = 1" by (simp add: Length_def testCollection_fields)
  from AddDocument_error_leaves_store[OF AddDocument_zero_second] inv
  have "\<forall>k a. documents ?c k = Some (Ptr a) \<longrightarrow>
          docHeap \<lparr>docHeap = [0 \<mapsto> testDocument ''1'' [84, 101, 115, 116] [Ptr 0],
                     2 \<mapsto> testDocument ''2'' [72, 105] []],
          segHeap = [\<lparr>Text = [84, 101], Embedding = [1, 0]\<rparr>]\<rparr> a = docHeap ?mem a"
    by blast
  then have "docHeap \<lparr>docHeap = [0 \<mapsto> testDocument ''1'' [84, 101, 115, 116] [Ptr 0],
                     2 \<mapsto> testDocument ''2'' [72, 105] []],
          segHeap = [\<lparr>Text = [84, 101], Embedding = [1, 0]\<rparr>]\<rparr> 2 = docHeap ?mem 2"
    by (simp add: testCollection_fields)
  then show ?thesis using AddDocument_zero_second inv len by simp
qed

section \<open>Re-embedding (claim C1)\<close>

lemma createSegments_result:
  fixes mem :: "'m memory"
  assumes "createSegments mem (Ptr a) segments embeddings i = (None :: 'e error option, mem')"
    and "docHeap mem a = Some d"
  shows "(segments \<noteq> [] \<longrightarrow> i + length segments \<le> length embeddings)
       \<and> docHeap mem' = (docHeap mem)(a \<mapsto> d\<lparr>Segments := Segments d @
              map Ptr [length (segHeap mem)..<length (segHeap mem) + length segments]\<rparr>)
       \<and> segHeap mem' = segHeap mem @
              map2 (\<lambda>t e. \<lparr>Text = t, Embedding = e\<rparr>) segments (drop i embeddings)"
  using assms
proof (induction segments arbitrary: mem i d)
  case Nil
  then show ?case by auto
next
  case (Cons segmentText rest)
  have lt: "i < length embeddings" using Cons.prems(1) by (auto split: if_splits)
  let ?s = "\<lparr>Text = segmentText, Embedding = embeddings ! i\<rparr>"
  let ?d1 = "d\<lparr>Segments := Segments d @ [Ptr (length (segHeap mem))]\<rparr>"
  let ?mem1 = "mem\<lparr>segHeap := segHeap mem @ [?s], docHeap := (docHeap mem)(a \<mapsto> ?d1)\<rparr>"
  have step: "appendSegment (snd (newSegment mem ?s)) (Ptr a) (fst (newSegment mem ?s)) = ?mem1"
    using Cons.prems(2) by (simp add: appendSegment_def newSegment_def)
  have rec: "createSegments ?mem1 (Ptr a) rest embeddings (Suc i) = (None :: 'e error option, mem')"
    using Cons.prems(1) lt step by (simp add: case_prod_beta)
  have d1: "docHeap ?mem1 a = Some ?d1" by simp
  note IH = Cons.IH[OF rec d1]
  have dr: "drop i embeddings = embeddings ! i # drop (Suc i) embeddings"
    using lt by (simp add: Cons_nth_drop_Suc)
  have up: "map Ptr [length (segHeap mem)..<length (segHeap mem) + length (segmentText # rest)]
      = Ptr (length (segHeap mem)) #
        map Ptr [length (segHeap ?mem1)..<length (segHeap ?mem1) + length rest]"
    by (subst upt_rec) simp
  have len: "i + length (segmentText # rest) \<le> length embeddings"
    using IH lt by (cases rest) auto
  have heap: "docHeap mem' = (docHeap mem)(a \<mapsto> d\<lparr>Segments := Segments d @
              map Ptr [length (segHeap mem)..<length (segHeap mem) + length (segmentText # rest)]\<rparr>)"
  proof -
    have gen: "(docHeap ?mem1)(a \<mapsto> ?d1\<lparr>Segments := Segments ?d1 @ X\<rparr>)
        = (docHeap mem)(a \<mapsto> d\<lparr>Segments := Segments d @ Ptr (length (segHeap mem)) # X\<rparr>)" for X
      by simp
    have h2: "docHeap mem' = (docHeap ?mem1)(a \<mapsto> ?d1\<lparr>Segments := Segments ?d1 @
              map Ptr [length (segHeap ?mem1)..<length (segHeap ?mem1) + length rest]\<rparr>)"
      using IH by blast
    show ?thesis by (simp only: h2 up gen)
  qed
  have segs: "segHeap mem' = segHeap mem @
              map2 (\<lambda>t e. \<lparr>Text = t, Embedding = e\<rparr>) (segmentText # rest) (drop i embeddings)"
  proof -
    have h3: "segHeap mem' = segHeap ?mem1 @
              map2 (\<lambda>t e. \<lparr>Text = t, Embedding = e\<rparr>) rest (drop (Suc i) embeddings)"
      using IH by blast
    show ?thesis unfolding dr h3 by simp
  qed
  show ?case using len heap segs by blast
qed

lemma embedDocument_result:
  fixes mem :: "'m memory" and c :: "'e Collection"
  assumes "embedDocument c mem (Ptr a) = Some (None :: 'e error option, mem')"
    and "docHeap mem a = Some d"
  shows "\<exists>new. reembedded c d = Some new
       \<and> docHeap mem' = (docHeap mem)(a \<mapsto> d\<lparr>Segments := Segments d @
              map Ptr [length (segHeap mem)..<length (segHeap mem) + length new]\<rparr>)
       \<and> segHeap mem' = segHeap mem @ new"
proof -
  have deref: "(derefDoc mem (Ptr a) :: 'e error + 'm Document) = Inr d"
    using assms(2) by (simp add: derefDoc_def)
  have content: "Content d \<noteq> []"
    using assms(1) deref by (auto simp: embedDocument_def split: if_splits)
  obtain segments where segs: "splitText c (Content d) = Some (Inr segments)"
    using assms(1) deref content
    by (auto simp: embedDocument_def split: option.splits sum.splits)
  obtain embeddings where embs: "embeddingFunc c segments (embeddingDocumentType c) = Inr embeddings"
    using assms(1) deref content segs
    by (auto simp: embedDocument_def split: sum.splits)
  obtain normalized where nrm: "(collect (map normalizeVector embeddings) :: 'e error + vec list) = Inr normalized"
    using assms(1) deref content segs embs
    by (auto simp: embedDocument_def split: sum.splits)
  have cr: "createSegments mem (Ptr a) segments normalized 0 = (None :: 'e error option, mem')"
    using assms(1) deref content segs embs nrm by (simp add: embedDocument_def)
  note res = createSegments_result[OF cr assms(2)]
  let ?new = "map2 (\<lambda>t e. \<lparr>Text = t, Embedding = e\<rparr>) segments normalized"
  have le: "length segments \<le> length normalized"
    using res by (cases segments) auto
  then have "reembedded c d = Some ?new"
    using segs embs nrm by (simp add: reembedded_def)
  moreover have "length ?new = length segments" using le by simp
  ultimately show ?thesis using res by auto
qed

lemma embedDocument_success_deref:
  fixes mem :: "'m memory" and c :: "'e Collection"
  assumes "embedDocument c mem doc = Some (None :: 'e error option, mem')"
  shows "\<exists>a d. doc = Ptr a \<and> docHeap mem a = Some d"
  using assms
  by (auto simp: embedDocument_def derefDoc_def split: ptr.splits option.splits)


lemma deref_new_segments:
  assumes "segHeap mem' = old @ new @ ext"
  shows "map (derefSeg mem') (map Ptr [length old..<length old + length new])
           = (map Inr new :: ('e error + Segment) list)"
proof (rule nth_equalityI)
  show "length (map (derefSeg mem') (map Ptr [length old..<length old + length new]))
          = length (map Inr new :: ('e error + Segment) list)"
    by simp
next
  fix j
  assume "j < length (map (derefSeg mem') (map Ptr [length old..<length old + length new]))"
  then have j: "j < length new" by simp
  then have "(derefSeg mem' (Ptr (length old + j)) :: 'e error + Segment) = Inr (new ! j)"
    using assms by (simp add: derefSeg_def nth_append)
  then show "map (derefSeg mem') (map Ptr [length old..<length old + length new]) ! j
          = (map Inr new :: ('e error + Segment) list) ! j"
    using j by simp
qed

lemma store_inv_key:
  "store_inv c mem \<Longrightarrow> documents c k = Some (Ptr a) \<Longrightarrow> docHeap mem a = Some d \<Longrightarrow> ID d = k"
  unfolding store_inv_def by fastforce

lemma EmbedDocuments_loop_result:
  fixes mem :: "'m memory" and c :: "'e Collection"
  assumes "EmbedDocuments_loop c mem keys = Some (None :: 'e error option, mem')"
    and "store_inv c mem" and "distinct keys"
  shows "(\<exists>ext. segHeap mem' = segHeap mem @ ext)
       \<and> (\<forall>k a d. documents c k = Some (Ptr a) \<longrightarrow> docHeap mem a = Some d \<longrightarrow>
             (k \<notin> set keys \<longrightarrow> docHeap mem' a = Some d)
           \<and> (k \<in> set keys \<longrightarrow>
                (\<exists>ptrs new. reembedded c d = Some new
                   \<and> docHeap mem' a = Some (d\<lparr>Segments := Segments d @ ptrs\<rparr>)
                   \<and> map (derefSeg mem') ptrs = (map Inr new :: ('e error + Segment) list))))"
  using assms
proof (induction keys arbitrary: mem)
  case Nil
  then show ?case by simp
next
  case (Cons k1 rest)
  show ?case
  proof (cases "documents c k1")
    case None
    then have loop: "EmbedDocuments_loop c mem rest = Some (None :: 'e error option, mem')"
      using Cons.prems(1) by simp
    have dist: "distinct rest" using Cons.prems(3) by simp
    note IH = Cons.IH[OF loop Cons.prems(2) dist]
    have "k \<in> set (k1 # rest) \<longleftrightarrow> k \<in> set rest" if "documents c k = Some (Ptr a)" for k a
      using that None by auto
    then show ?thesis using IH by blast
  next
    case (Some doc1)
    obtain mem1 where e1: "embedDocument c mem doc1 = Some (None :: 'e error option, mem1)"
      and loop: "EmbedDocuments_loop c mem1 rest = Some (None :: 'e error option, mem')"
      using Cons.prems(1) Some
      by (auto split: option.splits prod.splits)
    obtain a1 d1 where a1: "doc1 = Ptr a1" "docHeap mem a1 = Some d1"
      using embedDocument_success_deref[OF e1] by blast
    have k1: "ID d1 = k1" using store_inv_key[OF Cons.prems(2)] Some a1 by blast
    obtain new1 where new1: "reembedded c d1 = Some new1"
      and heap1: "docHeap mem1 = (docHeap mem)(a1 \<mapsto> d1\<lparr>Segments := Segments d1 @
              map Ptr [length (segHeap mem)..<length (segHeap mem) + length new1]\<rparr>)"
      and segs1: "segHeap mem1 = segHeap mem @ new1"
      using embedDocument_result[OF e1[unfolded a1(1)] a1(2)] by blast
    have inv1: "store_inv c mem1"
      using embedDocument_frame[OF e1] Cons.prems(2) store_inv_extended by blast
    have dist: "distinct rest" "k1 \<notin> set rest" using Cons.prems(3) by simp_all
    note IH = Cons.IH[OF loop inv1 dist(1)]
    obtain ext where ext: "segHeap mem' = segHeap mem1 @ ext" using IH by blast
    have grow: "segHeap mem' = segHeap mem @ new1 @ ext" using ext segs1 by simp
    have main: "(k \<notin> set (k1 # rest) \<longrightarrow> docHeap mem' a = Some d)
           \<and> (k \<in> set (k1 # rest) \<longrightarrow>
                (\<exists>ptrs new. reembedded c d = Some new
                   \<and> docHeap mem' a = Some (d\<lparr>Segments := Segments d @ ptrs\<rparr>)
                   \<and> map (derefSeg mem') ptrs = (map Inr new :: ('e error + Segment) list)))"
      if k: "documents c k = Some (Ptr a)" and d: "docHeap mem a = Some d" for k a d
    proof (cases "k = k1")
      case True
      then have same: "a = a1" "d = d1" using k Some a1 d by auto
      let ?ptrs = "map Ptr [length (segHeap mem)..<length (segHeap mem) + length new1]"
      have "docHeap mem1 a1 = Some (d1\<lparr>Segments := Segments d1 @ ?ptrs\<rparr>)"
        using heap1 by simp
      then have "docHeap mem' a1 = Some (d1\<lparr>Segments := Segments d1 @ ?ptrs\<rparr>)"
        using IH k same True dist(2) by blast
      moreover have "map (derefSeg mem') ?ptrs = (map Inr new1 :: ('e error + Segment) list)"
        using grow by (rule deref_new_segments)
      ultimately show ?thesis using True same new1 by auto
    next
      case False
      have "ID d = k" using store_inv_key[OF Cons.prems(2) k d] .
      then have "a \<noteq> a1" using False k1 a1(2) d by auto
      then have "docHeap mem1 a = Some d" using heap1 d by simp
      then show ?thesis using IH k False by auto
    qed
    show ?thesis using grow main by blast
  qed
qed

text \<open>
  What \<open>EmbedDocuments\<close> does in the model, where no two \<open>Segments\<close> slices share a backing
  array: after a successful call on a store that satisfies \<open>store_inv\<close>, every stored
  document holds the segments it held before, followed by the segments produced by
  re-segmenting and re-embedding its current content. The segments allocated before the
  call are unchanged.
\<close>

lemma EmbedDocuments_appends:
  fixes mem :: "'m memory" and c :: "'e Collection"
  assumes "EmbedDocuments keys c mem = Some (None :: 'e error option, mem')"
    and "range_of (documents c) keys" and "store_inv c mem"
    and "documents c k = Some (Ptr a)" and "docHeap mem a = Some d"
  shows "\<exists>ptrs new. reembedded c d = Some new
           \<and> docHeap mem' a = Some (d\<lparr>Segments := Segments d @ ptrs\<rparr>)
           \<and> map (derefSeg mem') ptrs = (map Inr new :: ('e error + Segment) list)
           \<and> (\<exists>ext. segHeap mem' = segHeap mem @ ext)"
proof -
  have "k \<in> set keys" using assms(2,4) unfolding range_of_def by auto
  moreover have "distinct keys" using assms(2) unfolding range_of_def by simp
  ultimately show ?thesis
    using EmbedDocuments_loop_result[OF assms(1)[unfolded EmbedDocuments_def] assms(3)] assms(4,5)
    by blast
qed


lemma reembedded_test:
  "reembedded (testCollection unitGen 100 10 [''1'' \<mapsto> Ptr 0])
       (testDocument ''1'' [84, 101, 115, 116] [Ptr 0])
     = Some [\<lparr>Text = [84, 101, 115, 116], Embedding = [1, 0]\<rparr>]"
proof -
  have d: "Content (testDocument ''1'' [84, 101, 115, 116] [Ptr 0]) = [84, 101, 115, 116]"
    by (simp add: testDocument_def)
  show ?thesis
    unfolding reembedded_def
    by (simp add: d splitText_test testCollection_fields unitGen_def normalizeVector_unit)
qed

text \<open>
  Claim C1 says that after a successful \<open>EmbedDocuments\<close> a stored document holds exactly
  the segments produced by re-segmenting and re-embedding its current content, the
  previous ones being replaced. The code on the document of the tests (ID \<open>1\<close>, content
  \<open>Test\<close>, no segments), added by \<open>AddDocument\<close> and then re-embedded: \<open>AddDocument\<close>
  leaves it with one segment; re-segmenting and re-embedding its content gives that one
  segment again; a successful \<open>EmbedDocuments\<close> leaves the document with two segments,
  the old one and a copy of it, because line 215 appends to \<^verbatim>\<open>doc.Segments\<close> and nothing
  empties the slice before.
\<close>

theorem EmbedDocuments_duplicates_segments:
  "AddDocument (testCollection unitGen 100 10 Map.empty)
      \<lparr>docHeap = [0 \<mapsto> testDocument ''1'' [84, 101, 115, 116] []], segHeap = []\<rparr> (Ptr 0)
     = Some (None, testCollection unitGen 100 10 [''1'' \<mapsto> Ptr 0],
         \<lparr>docHeap = [0 \<mapsto> testDocument ''1'' [84, 101, 115, 116] [Ptr 0]],
          segHeap = [\<lparr>Text = [84, 101, 115, 116], Embedding = [1, 0]\<rparr>]\<rparr>)
   \<and> reembedded (testCollection unitGen 100 10 [''1'' \<mapsto> Ptr 0])
         (testDocument ''1'' [84, 101, 115, 116] [Ptr 0])
       = Some [\<lparr>Text = [84, 101, 115, 116], Embedding = [1, 0]\<rparr>]
   \<and> EmbedDocuments [''1''] (testCollection unitGen 100 10 [''1'' \<mapsto> Ptr 0])
      \<lparr>docHeap = [0 \<mapsto> testDocument ''1'' [84, 101, 115, 116] [Ptr 0]],
       segHeap = [\<lparr>Text = [84, 101, 115, 116], Embedding = [1, 0]\<rparr>]\<rparr>
     = Some (None :: unit error option,
         \<lparr>docHeap = [0 \<mapsto> testDocument ''1'' [84, 101, 115, 116] [Ptr 0, Ptr 1]],
          segHeap = [\<lparr>Text = [84, 101, 115, 116], Embedding = [1, 0]\<rparr>,
                     \<lparr>Text = [84, 101, 115, 116], Embedding = [1, 0]\<rparr>]\<rparr>)
   \<and> Segments (testDocument ''1'' [84, 101, 115, 116] [Ptr 0, Ptr 1]) = [Ptr 0, Ptr 1]"
  using AddDocument_test EmbedDocuments_test reembedded_test by (simp add: testDocument_def)

section \<open>The query engine (claims C9 and C5)\<close>

text \<open>
  Claim C9. With an empty list of queries, \<open>GetTopNSimilarDocumentsForQueries\<close> returns the
  error for "all queries failed" (and no list), whatever \<open>N\<close> is: no query ran, so the
  count of failed queries, zero, equals the number of queries.
\<close>

theorem empty_queries_fail:
  "GetTopNSimilarDocumentsForQueries envs srt c mem [] topN = Inl AllQueriesFailed"
  by (simp add: GetTopNSimilarDocumentsForQueries_def queryOutcomes_def)






































section \<open>The result aggregator (claim C3)\<close>

























end
